theory Spec2Isabelle
  imports Complex_Main "HOL-Library.AList" "HOL-Library.Log_Nat" "HOL-Library.Char_ord" "HOL-Library.List_Lexorder"
begin

section \<open>SpendWise: the expense access layer (app/apis/expenses)\<close>

text \<open>
  The server actions of \<^verbatim>\<open>app/apis/expenses\<close> are embedded as functions on an explicit
  world: the ambient session (what \<^verbatim>\<open>supabase.auth.getUser()\<close> returns), the two tables
  behind \<^verbatim>\<open>prisma.category\<close> and \<^verbatim>\<open>prisma.expense\<close>, the id generator of the
  expense table and the log of storage calls made so far. Every \<^verbatim>\<open>throw\<close> is a value
  \<open>Inl err\<close>; the world returned with it is the world at the moment of the throw.
  \<^verbatim>\<open>console.log\<close> and \<^verbatim>\<open>revalidatePath\<close> touch neither table and are left out.
\<close>

subsection \<open>Data\<close>

type_synonym timestamp = int
  \<comment> \<open>a JavaScript \<^verbatim>\<open>Date\<close>: milliseconds since the epoch\<close>

type_synonym decimal = rat
  \<comment> \<open>a \<^verbatim>\<open>Decimal\<close> at rest: an exact decimal fraction\<close>

type_synonym number = rat
  \<comment> \<open>the value of a finite JavaScript \<^verbatim>\<open>number\<close> (binary64)\<close>

type_synonym expense_id = nat
  \<comment> \<open>the id of an expense row: in the code an opaque string the database generates and
      nothing inspects; here the \<open>n\<close>-th generated id is \<open>n\<close>\<close>

record User =
  user_id :: string

record Category =
  c_id :: string
  c_name :: string

record Expense =
  e_id :: expense_id
  userId :: string
  amount :: decimal
  categoryId :: string
  date :: timestamp
  e_note :: "string option"

datatype error =
    Error string  \<comment> \<open>\<^verbatim>\<open>throw new Error(message)\<close>\<close>
  | TypeError     \<comment> \<open>reading a property of \<^verbatim>\<open>undefined\<close>\<close>
  | PrismaError   \<comment> \<open>the storage client rejects the call\<close>

datatype prisma_call =
    CategoryFindMany
  | CategoryUpsert
  | ExpenseCount
  | ExpenseFindMany
  | ExpenseFindUnique
  | ExpenseCreate
  | ExpenseDelete
  | ExpenseDeleteMany

record world =
  session :: "User option"
  categories :: "Category list"
  expenses :: "Expense list"
  nextId :: expense_id
  calls :: "prisma_call list"

definition log_call :: "prisma_call \<Rightarrow> world \<Rightarrow> world" where
  "log_call c w = w\<lparr>calls := calls w @ [c]\<rparr>"

subsection \<open>The access guard\<close>

definition getUser :: "world \<Rightarrow> User option" where
  "getUser w = session w"

definition Unauthorized :: error where
  "Unauthorized = Error ''Unauthorized''"

definition InvalidAmount :: error where
  "InvalidAmount = Error ''Amount must be greater than 0''"

definition NotFoundOrUnauthorized :: error where
  "NotFoundOrUnauthorized = Error ''Expense not found or unauthorized''"

subsection \<open>Storage calls on the expense table\<close>

text \<open>
  \<^verbatim>\<open>prisma.expense.create\<close>: the row gets the next generated id and is appended. The call
  is rejected when the date is an Invalid Date (\<open>None\<close>) or when the category id references
  no category (the foreign key).
\<close>

definition prisma_expense_create ::
  "string \<Rightarrow> decimal \<Rightarrow> string \<Rightarrow> timestamp option \<Rightarrow> string option \<Rightarrow> world
     \<Rightarrow> (error + Expense) \<times> world" where
  "prisma_expense_create uid amt cid d n w =
     (let w1 = log_call ExpenseCreate w
      in case d of
           None \<Rightarrow> (Inl PrismaError, w1)
         | Some t \<Rightarrow>
             if cid \<in> set (map c_id (categories w1)) then
               (let e = \<lparr>e_id = nextId w1, userId = uid, amount = amt, categoryId = cid,
                         date = t, e_note = n\<rparr>
                in (Inr e, w1\<lparr>expenses := expenses w1 @ [e], nextId := Suc (nextId w1)\<rparr>))
             else (Inl PrismaError, w1))"

definition prisma_expense_findUnique :: "expense_id \<Rightarrow> world \<Rightarrow> Expense option \<times> world" where
  "prisma_expense_findUnique i w =
     (find (\<lambda>e. e_id e = i) (expenses w), log_call ExpenseFindUnique w)"

definition prisma_expense_delete :: "expense_id \<Rightarrow> world \<Rightarrow> (error + Expense) \<times> world" where
  "prisma_expense_delete i w =
     (let w1 = log_call ExpenseDelete w
      in case find (\<lambda>e. e_id e = i) (expenses w1) of
           None \<Rightarrow> (Inl PrismaError, w1)
         | Some e \<Rightarrow> (Inr e, w1\<lparr>expenses := filter (\<lambda>x. e_id x \<noteq> i) (expenses w1)\<rparr>))"

definition prisma_expense_deleteMany :: "string \<Rightarrow> world \<Rightarrow> nat \<times> world" where
  "prisma_expense_deleteMany uid w =
     (let w1 = log_call ExpenseDeleteMany w
      in (length (filter (\<lambda>e. userId e = uid) (expenses w1)),
          w1\<lparr>expenses := filter (\<lambda>e. userId e \<noteq> uid) (expenses w1)\<rparr>))"

subsection \<open>createExpense\<close>

record ExpenseData =
  d_amount :: number  \<comment> \<open>finite; \<^verbatim>\<open>NaN\<close> and the infinities are not modelled\<close>
  d_categoryId :: string
  d_date :: "timestamp option"  \<comment> \<open>\<^verbatim>\<open>new Date(data.date)\<close>; \<open>None\<close> is Invalid Date\<close>
  d_note :: "string option"

definition Decimal :: "number \<Rightarrow> decimal" where
  \<comment> \<open>\<^verbatim>\<open>new Decimal(n)\<close> parses the shortest decimal numeral that reads back as \<open>n\<close>; a
      number given from outside (\<^verbatim>\<open>data.amount\<close>, a literal) is held as that decimal\<close>
  "Decimal n = n"

definition or_null :: "string option \<Rightarrow> string option" where
  \<comment> \<open>\<^verbatim>\<open>data.note || null\<close>: the empty string is falsy\<close>
  "or_null n = (case n of None \<Rightarrow> None | Some s \<Rightarrow> if s = [] then None else Some s)"

definition createExpense :: "ExpenseData \<Rightarrow> world \<Rightarrow> (error + unit) \<times> world" where
  "createExpense data w =
     (case getUser w of
        None \<Rightarrow> (Inl Unauthorized, w)
      | Some user \<Rightarrow>
          if d_amount data \<le> 0 then (Inl InvalidAmount, w)
          else
            (case prisma_expense_create (user_id user) (Decimal (d_amount data))
                    (d_categoryId data) (d_date data) (or_null (d_note data)) w of
               (Inl err, w1) \<Rightarrow> (Inl err, w1)
             | (Inr e, w1) \<Rightarrow> (Inr (), w1)))"

subsection \<open>deleteExpense and clearAllExpenses\<close>

definition deleteExpense :: "expense_id \<Rightarrow> world \<Rightarrow> (error + unit) \<times> world" where
  "deleteExpense i w =
     (case getUser w of
        None \<Rightarrow> (Inl Unauthorized, w)
      | Some user \<Rightarrow>
          (case prisma_expense_findUnique i w of
             (None, w1) \<Rightarrow> (Inl NotFoundOrUnauthorized, w1)
           | (Some expense, w1) \<Rightarrow>
               if userId expense \<noteq> user_id user then (Inl NotFoundOrUnauthorized, w1)
               else
                 (case prisma_expense_delete i w1 of
                    (Inl err, w2) \<Rightarrow> (Inl err, w2)
                  | (Inr e, w2) \<Rightarrow> (Inr (), w2))))"

definition clearAllExpenses :: "world \<Rightarrow> (error + nat) \<times> world" where
  "clearAllExpenses w =
     (case getUser w of
        None \<Rightarrow> (Inl Unauthorized, w)
      | Some user \<Rightarrow>
          (case prisma_expense_deleteMany (user_id user) w of
             (n, w1) \<Rightarrow> (Inr n, w1)))"

subsection \<open>JavaScript numbers\<close>

text \<open>
  \<^verbatim>\<open>Decimal.toNumber()\<close> and \<^verbatim>\<open>+\<close> on numbers round to the nearest binary64 value, ties
  to even. \<open>fl\<close> is that rounding on the rationals: 53 significant bits, exponents from
  \<open>-1074\<close> (the subnormals) upwards. Overflow to \<^verbatim>\<open>Infinity\<close> (magnitudes from \<open>2^1024\<close>) is
  outside the embedding: a DECIMAL column holds nothing near that size.
\<close>

definition round_half_even :: "rat \<Rightarrow> int" where
  "round_half_even x =
     (let f = \<lfloor>x\<rfloor>; d = x - of_int f
      in if d < 1 / 2 then f else if 1 / 2 < d then f + 1 else if even f then f else f + 1)"

definition ilog2 :: "rat \<Rightarrow> int" where
  \<comment> \<open>\<open>\<lfloor>log\<^sub>2 x\<rfloor>\<close> for \<open>0 < x\<close>\<close>
  "ilog2 x = (case quotient_of x of (n, d) \<Rightarrow>
      let k = bitlen n - bitlen d in if 2 powi k \<le> x then k else k - 1)"

definition fl :: "rat \<Rightarrow> number" where
  "fl x = (if x = 0 then 0 else
     let e = max (ilog2 \<bar>x\<bar> - 52) (- 1074)
     in of_int (round_half_even (x / 2 powi e)) * 2 powi e)"

definition toNumber :: "decimal \<Rightarrow> number" where
  "toNumber d = fl d"

definition js_add :: "number \<Rightarrow> number \<Rightarrow> number" where
  "js_add a b = fl (a + b)"

text \<open>
  When summing decimals as numbers loses nothing: every amount is a binary64 value and so
  is every partial sum, starting from \<open>s\<close>.
\<close>

fun exactly_summable :: "number \<Rightarrow> decimal list \<Rightarrow> bool" where
  "exactly_summable s [] = True"
| "exactly_summable s (d # ds) =
     (toNumber d = d \<and> js_add s d = s + d \<and> exactly_summable (s + d) ds)"

subsection \<open>Queries on the expense table\<close>

record ExpenseWithCategory = Expense +
  category :: Category

datatype direction = asc | desc

datatype order_by = Unordered | ByDate direction | ByAmount direction

text \<open>
  The \<^verbatim>\<open>where\<close> object of getExpenses and getDashboardSummary: owner, inclusive date
  range, and the category when the spread adds it.
\<close>

definition where_clause ::
  "string \<Rightarrow> timestamp \<Rightarrow> timestamp \<Rightarrow> string option \<Rightarrow> Expense \<Rightarrow> bool" where
  "where_clause uid startDate endDate cat e =
     (userId e = uid \<and> startDate \<le> date e \<and> date e \<le> endDate \<and>
      (case cat of None \<Rightarrow> True | Some c \<Rightarrow> categoryId e = c))"

text \<open>
  \<^verbatim>\<open>orderBy\<close>: a single key and direction. Rows with equal keys come in an order the
  database chooses; the embedding keeps them in table order.
\<close>

definition order_rows :: "order_by \<Rightarrow> Expense list \<Rightarrow> Expense list" where
  "order_rows ob rows =
     (case ob of
        Unordered \<Rightarrow> rows
      | ByDate asc \<Rightarrow> sort_key date rows
      | ByDate desc \<Rightarrow> sort_key (\<lambda>e. - date e) rows
      | ByAmount asc \<Rightarrow> sort_key amount rows
      | ByAmount desc \<Rightarrow> sort_key (\<lambda>e. - amount e) rows)"

text \<open>
  \<^verbatim>\<open>skip\<close> and \<^verbatim>\<open>take\<close>: a negative \<^verbatim>\<open>skip\<close> is rejected by the client; a negative
  \<^verbatim>\<open>take\<close> counts from the end of the ordered rows.
\<close>

definition skip_take :: "(int \<times> int) option \<Rightarrow> 'a list \<Rightarrow> error + 'a list" where
  "skip_take st rows =
     (case st of
        None \<Rightarrow> Inr rows
      | Some (skip, tk) \<Rightarrow>
          if skip < 0 then Inl PrismaError
          else if 0 \<le> tk then Inr (take (nat tk) (drop (nat skip) rows))
          else Inr (rev (take (nat (- tk)) (drop (nat skip) (rev rows)))))"

text \<open>\<^verbatim>\<open>include: { category: true }\<close>: each row with the category its foreign key names.\<close>

definition with_category :: "Category list \<Rightarrow> Expense \<Rightarrow> ExpenseWithCategory option" where
  "with_category cats e =
     (case find (\<lambda>c. c_id c = categoryId e) cats of
        None \<Rightarrow> None
      | Some c \<Rightarrow> Some \<lparr>e_id = e_id e, userId = userId e, amount = amount e,
                         categoryId = categoryId e, date = date e, e_note = e_note e,
                         category = c\<rparr>)"

definition prisma_expense_count :: "(Expense \<Rightarrow> bool) \<Rightarrow> world \<Rightarrow> nat \<times> world" where
  "prisma_expense_count wh w = (length (filter wh (expenses w)), log_call ExpenseCount w)"

definition prisma_expense_findMany ::
  "(Expense \<Rightarrow> bool) \<Rightarrow> order_by \<Rightarrow> (int \<times> int) option \<Rightarrow> world
     \<Rightarrow> (error + ExpenseWithCategory list) \<times> world" where
  "prisma_expense_findMany wh ob st w =
     (let w1 = log_call ExpenseFindMany w
      in case skip_take st (order_rows ob (filter wh (expenses w1))) of
           Inl err \<Rightarrow> (Inl err, w1)
         | Inr rows \<Rightarrow>
             (case those (map (with_category (categories w1)) rows) of
                None \<Rightarrow> (Inl PrismaError, w1)
              | Some joined \<Rightarrow> (Inr joined, w1)))"

subsection \<open>getCategories\<close>

definition prisma_category_findMany :: "bool \<Rightarrow> world \<Rightarrow> Category list \<times> world" where
  \<comment> \<open>the flag is \<^verbatim>\<open>orderBy: { name: 'asc' }\<close>\<close>
  "prisma_category_findMany by_name w =
     ((if by_name then sort_key c_name (categories w) else categories w),
      log_call CategoryFindMany w)"

definition getCategories :: "world \<Rightarrow> (error + Category list) \<times> world" where
  "getCategories w = (case prisma_category_findMany True w of (cs, w1) \<Rightarrow> (Inr cs, w1))"

subsection \<open>getExpenses\<close>

datatype sort_by = date_desc | date_asc | amount_desc | amount_asc

record Pagination =
  p_page :: int
  p_pageSize :: int
  p_total :: nat
  p_totalPages :: "int option"  \<comment> \<open>\<open>None\<close>: \<^verbatim>\<open>Infinity\<close> or \<^verbatim>\<open>NaN\<close>, when \<^verbatim>\<open>pageSize\<close> is 0\<close>

record ExpensesResult =
  r_data :: "ExpenseWithCategory list"
  r_pagination :: Pagination

definition orderBy :: "sort_by \<Rightarrow> order_by" where
  "orderBy sortBy =
     (if sortBy = date_desc then ByDate desc
      else if sortBy = date_asc then ByDate asc
      else if sortBy = amount_desc then ByAmount desc
      else ByAmount asc)"

definition category_spread :: "string option \<Rightarrow> string option" where
  \<comment> \<open>\<^verbatim>\<open>...(categoryId && categoryId !== 'all' ? { categoryId } : {})\<close>\<close>
  "category_spread cid =
     (case cid of
        None \<Rightarrow> None
      | Some c \<Rightarrow> if c \<noteq> [] \<and> c \<noteq> ''all'' then Some c else None)"

definition ceil_div :: "nat \<Rightarrow> int \<Rightarrow> int option" where
  \<comment> \<open>\<^verbatim>\<open>Math.ceil(total / pageSize)\<close>\<close>
  "ceil_div n d = (if d = 0 then None else Some \<lceil>rat_of_nat n / rat_of_int d\<rceil>)"

definition amount_toNumber :: "ExpenseWithCategory \<Rightarrow> ExpenseWithCategory" where
  \<comment> \<open>\<^verbatim>\<open>{ ...expense, amount: expense.amount.toNumber() }\<close>\<close>
  "amount_toNumber expense = expense\<lparr>amount := toNumber (amount expense)\<rparr>"

definition getExpenses ::
  "timestamp \<Rightarrow> timestamp \<Rightarrow> string option \<Rightarrow> sort_by \<Rightarrow> int \<Rightarrow> int \<Rightarrow> world
     \<Rightarrow> (error + ExpensesResult) \<times> world" where
  "getExpenses startDate endDate cid sortBy pg psize w =
     (case getUser w of
        None \<Rightarrow> (Inl Unauthorized, w)
      | Some user \<Rightarrow>
          (let wh = where_clause (user_id user) startDate endDate (category_spread cid)
           in case prisma_expense_count wh w of
                (tot, w1) \<Rightarrow>
                  (case prisma_expense_findMany wh (orderBy sortBy)
                          (Some ((pg - 1) * psize, psize)) w1 of
                     (Inl err, w2) \<Rightarrow> (Inl err, w2)
                   | (Inr rows, w2) \<Rightarrow>
                       (Inr \<lparr>r_data = map amount_toNumber rows,
                             r_pagination =
                               \<lparr>p_page = pg, p_pageSize = psize, p_total = tot,
                                p_totalPages = ceil_div tot psize\<rparr>\<rparr>, w2))))"

subsection \<open>getDashboardSummary\<close>

record CategoryTotal =
  g_name :: string
  g_total :: number
  g_count :: nat

record DashboardSummary =
  s_total :: number
  s_count :: nat
  s_byCategory :: "CategoryTotal list"

text \<open>
  The accumulator of the second \<^verbatim>\<open>reduce\<close> is an object literal \<^verbatim>\<open>{}\<close>: its own
  properties, in creation order, are an association list; reading \<^verbatim>\<open>acc[categoryName]\<close>
  also sees the members it inherits from \<^verbatim>\<open>Object.prototype\<close>, all of them truthy.
\<close>

definition Object_prototype_names :: "string list" where
  "Object_prototype_names =
     [''constructor'', ''__defineGetter__'', ''__defineSetter__'', ''hasOwnProperty'',
      ''__lookupGetter__'', ''__lookupSetter__'', ''isPrototypeOf'', ''propertyIsEnumerable'',
      ''toString'', ''valueOf'', ''__proto__'', ''toLocaleString'']"

definition add_amount :: "number \<Rightarrow> CategoryTotal \<Rightarrow> CategoryTotal" where
  \<comment> \<open>\<^verbatim>\<open>.total += exp.amount.toNumber()\<close>, then \<^verbatim>\<open>.count += 1\<close>\<close>
  "add_amount x g = g\<lparr>g_total := js_add (g_total g) x, g_count := g_count g + 1\<rparr>"

definition byCategory_step ::
  "(string \<times> CategoryTotal) list \<Rightarrow> ExpenseWithCategory \<Rightarrow> (string \<times> CategoryTotal) list" where
  "byCategory_step acc expense =
     (let categoryName = c_name (category expense)
      in if categoryName \<in> set Object_prototype_names then acc
           \<comment> \<open>the inherited member is truthy: no entry is created, and the two updates
               write \<^verbatim>\<open>total\<close> and \<^verbatim>\<open>count\<close> on that member, not on \<^verbatim>\<open>acc\<close>\<close>
         else
           (let acc1 = (case map_of acc categoryName of
                          None \<Rightarrow> acc @ [(categoryName,
                                   \<lparr>g_name = categoryName, g_total = 0, g_count = 0\<rparr>)]
                        | Some g \<Rightarrow> acc)
            in AList.map_entry categoryName (add_amount (toNumber (amount expense))) acc1))"

text \<open>
  \<^verbatim>\<open>Object.values\<close>: the own properties whose key is an array index (a canonical decimal
  numeral below \<open>2^32 - 1\<close>) come first, in ascending numeric order; the others follow in
  creation order.
\<close>

definition is_digit :: "char \<Rightarrow> bool" where
  "is_digit c = (CHR ''0'' \<le> c \<and> c \<le> CHR ''9'')"

definition dec_value :: "string \<Rightarrow> nat" where
  "dec_value s = foldl (\<lambda>n c. 10 * n + (of_char c - 48)) 0 s"

definition is_array_index :: "string \<Rightarrow> bool" where
  "is_array_index s =
     (s \<noteq> [] \<and> list_all is_digit s \<and> (s = ''0'' \<or> hd s \<noteq> CHR ''0'') \<and>
      dec_value s < 2 ^ 32 - 1)"

definition Object_values :: "(string \<times> 'a) list \<Rightarrow> 'a list" where
  "Object_values obj =
     map snd (sort_key (\<lambda>kv. dec_value (fst kv)) (filter (\<lambda>kv. is_array_index (fst kv)) obj)
              @ filter (\<lambda>kv. \<not> is_array_index (fst kv)) obj)"

text \<open>
  \<^verbatim>\<open>.sort((a, b) => b.total - a.total)\<close>: a stable sort, larger totals first. On finite
  numbers the sign of the rounded difference is the sign of the exact one.
\<close>

definition sort_total_desc :: "CategoryTotal list \<Rightarrow> CategoryTotal list" where
  "sort_total_desc gs = sort_key (\<lambda>g. - g_total g) gs"

definition sum_amounts :: "ExpenseWithCategory list \<Rightarrow> number" where
  \<comment> \<open>\<^verbatim>\<open>expenses.reduce((sum, exp) => sum + exp.amount.toNumber(), 0)\<close>\<close>
  "sum_amounts exps = foldl (\<lambda>sum expense. js_add sum (toNumber (amount expense))) 0 exps"

definition getDashboardSummary ::
  "timestamp \<Rightarrow> timestamp \<Rightarrow> world \<Rightarrow> (error + DashboardSummary) \<times> world" where
  "getDashboardSummary startDate endDate w =
     (case getUser w of
        None \<Rightarrow> (Inl Unauthorized, w)
      | Some user \<Rightarrow>
          (case prisma_expense_findMany (where_clause (user_id user) startDate endDate None)
                  Unordered None w of
             (Inl err, w1) \<Rightarrow> (Inl err, w1)
           | (Inr exps, w1) \<Rightarrow>
               (Inr \<lparr>s_total = sum_amounts exps,
                     s_count = length exps,
                     s_byCategory =
                       sort_total_desc (Object_values (foldl byCategory_step [] exps))\<rparr>,
                w1)))"

subsection \<open>createDemoExpenses\<close>

record DemoExpense =
  x_amount :: number
  x_categoryId :: string
  x_date :: timestamp
  x_note :: string

type_synonym catalog_entry = "number \<times> nat \<times> int \<times> string"
  \<comment> \<open>amount, index into \<^verbatim>\<open>categories\<close>, days before now, note\<close>

definition demo_catalog_base :: "catalog_entry list" where
  "demo_catalog_base =
     [(45.50, 0, 0, ''Lunch at Italian restaurant''),
      (85.30, 0, 3, ''Grocery shopping at Whole Foods''),
      (12.75, 0, 5, ''Morning coffee and pastry''),
      (67.20, 0, 8, ''Dinner with friends''),
      (28.90, 0, 12, ''Takeout pizza''),
      (12.99, 1, 1, ''Subway monthly pass''),
      (55.00, 1, 6, ''Gas station fill-up''),
      (8.50, 1, 14, ''Uber ride home''),
      (125.00, 1, 20, ''Car maintenance and oil change''),
      (89.00, 2, 2, ''New running shoes''),
      (156.45, 2, 9, ''Winter jacket''),
      (34.99, 2, 16, ''Phone case and accessories''),
      (42.00, 2, 22, ''Books from bookstore''),
      (15.00, 3, 4, ''Movie tickets for two''),
      (45.00, 3, 11, ''Concert tickets''),
      (19.99, 3, 18, ''Netflix subscription''),
      (32.50, 3, 24, ''Bowling night''),
      (120.00, 4, 7, ''Monthly electric bill''),
      (65.00, 4, 7, ''Internet bill''),
      (89.99, 4, 15, ''Phone bill''),
      (200.00, 5, 10, ''Doctor checkup copay''),
      (35.50, 5, 17, ''Pharmacy prescription''),
      (75.00, 5, 25, ''Dental cleaning'')]"

definition demo_catalog_travel :: "catalog_entry list" where
  "demo_catalog_travel =
     [(450.00, 6, 13, ''Weekend hotel stay''),
      (180.00, 6, 19, ''Flight tickets'')]"

definition demo_catalog_education :: "catalog_entry list" where
  "demo_catalog_education =
     [(299.00, 7, 21, ''Online course subscription''),
      (48.50, 7, 27, ''Study materials'')]"

definition demo_catalog_other :: "catalog_entry list" where
  "demo_catalog_other =
     [(25.00, 8, 23, ''Gift for friend''),
      (15.99, 8, 28, ''Miscellaneous supplies'')]"

definition nth_opt :: "'a list \<Rightarrow> nat \<Rightarrow> 'a option" where
  \<comment> \<open>\<^verbatim>\<open>xs[k]\<close>; \<open>None\<close> is \<^verbatim>\<open>undefined\<close>\<close>
  "nth_opt xs k = (if k < length xs then Some (xs ! k) else None)"

definition demo_catalog :: "Category list \<Rightarrow> catalog_entry list" where
  \<comment> \<open>the entries of the array literal, the three conditional spreads resolved\<close>
  "demo_catalog cats =
     demo_catalog_base
     @ (case nth_opt cats 6 of None \<Rightarrow> [] | Some c \<Rightarrow> demo_catalog_travel)
     @ (case nth_opt cats 7 of None \<Rightarrow> [] | Some c \<Rightarrow> demo_catalog_education)
     @ (case nth_opt cats 8 of None \<Rightarrow> [] | Some c \<Rightarrow> demo_catalog_other)"

definition demo_entry :: "Category list \<Rightarrow> timestamp \<Rightarrow> catalog_entry \<Rightarrow> error + DemoExpense" where
  \<comment> \<open>one element of the literal; \<^verbatim>\<open>categories[k].id\<close> throws when \<^verbatim>\<open>categories[k]\<close> is undefined\<close>
  "demo_entry cats now ent =
     (case ent of (a, k, days, n) \<Rightarrow>
        (case nth_opt cats k of
           None \<Rightarrow> Inl TypeError
         | Some c \<Rightarrow> Inr \<lparr>x_amount = a, x_categoryId = c_id c,
                           x_date = now - 86400000 * days, x_note = n\<rparr>))"

fun first_error :: "(error + 'a) list \<Rightarrow> error + 'a list" where
  "first_error [] = Inr []"
| "first_error (Inl err # rs) = Inl err"
| "first_error (Inr x # rs) = (case first_error rs of Inl err \<Rightarrow> Inl err | Inr xs \<Rightarrow> Inr (x # xs))"

definition demoExpenses :: "Category list \<Rightarrow> (nat \<Rightarrow> timestamp) \<Rightarrow> error + DemoExpense list" where
  \<comment> \<open>\<open>clock k\<close> is what the \<open>k\<close>-th element reads from \<^verbatim>\<open>new Date()\<close> or \<^verbatim>\<open>Date.now()\<close>\<close>
  "demoExpenses cats clock =
     first_error (map (\<lambda>(k, ent). demo_entry cats (clock k) ent) (enumerate 0 (demo_catalog cats)))"

fun create_all :: "string \<Rightarrow> DemoExpense list \<Rightarrow> world \<Rightarrow> (error + unit) \<times> world" where
  "create_all uid [] w = (Inr (), w)"
| "create_all uid (expense # rest) w =
     (case prisma_expense_create uid (Decimal (x_amount expense)) (x_categoryId expense)
             (Some (x_date expense)) (Some (x_note expense)) w of
        (Inl err, w1) \<Rightarrow> (Inl err, w1)
      | (Inr e, w1) \<Rightarrow> create_all uid rest w1)"

definition createDemoExpenses :: "(nat \<Rightarrow> timestamp) \<Rightarrow> world \<Rightarrow> (error + unit) \<times> world" where
  "createDemoExpenses clock w =
     (case getUser w of
        None \<Rightarrow> (Inl Unauthorized, w)
      | Some user \<Rightarrow>
          (case prisma_category_findMany False w of
             (cats, w1) \<Rightarrow>
               (case demoExpenses cats clock of
                  Inl err \<Rightarrow> (Inl err, w1)
                | Inr demo \<Rightarrow> create_all (user_id user) demo w1)))"

subsection \<open>The category seed (prisma/seed.js)\<close>

definition seed_names :: "string list" where
  "seed_names =
     [''Food & Dining'', ''Transportation'', ''Shopping'', ''Entertainment'',
      ''Bills & Utilities'', ''Healthcare'', ''Travel'', ''Education'', ''Other'']"

definition prisma_category_upsert :: "string \<Rightarrow> string \<Rightarrow> world \<Rightarrow> world" where
  \<comment> \<open>\<^verbatim>\<open>upsert({ where: { name }, update: {}, create: { name } })\<close>; \<open>new_id\<close> is the id
      the database gives a created row\<close>
  "prisma_category_upsert new_id nm w =
     (let w1 = log_call CategoryUpsert w
      in case find (\<lambda>c. c_name c = nm) (categories w1) of
           Some c \<Rightarrow> w1
         | None \<Rightarrow> w1\<lparr>categories := categories w1 @ [\<lparr>c_id = new_id, c_name = nm\<rparr>]\<rparr>)"

definition seed_main :: "(string \<Rightarrow> string) \<Rightarrow> world \<Rightarrow> world" where
  "seed_main gen_id w = fold (\<lambda>nm. prisma_category_upsert (gen_id nm) nm) seed_names w"

subsection \<open>A world to run the operations on\<close>

text \<open>
  The data of the repository's tests: two categories, three expenses of the signed-in user
  and one expense of another user; the window runs from 2026-01-01 to 2026-02-05.
\<close>

definition test_user :: User where
  "test_user = \<lparr>user_id = ''test-user-id''\<rparr>"

definition test_categories :: "Category list" where
  "test_categories =
     [\<lparr>c_id = ''cat-1'', c_name = ''Food''\<rparr>, \<lparr>c_id = ''cat-2'', c_name = ''Transport''\<rparr>]"

definition test_expenses :: "Expense list" where
  "test_expenses =
     [\<lparr>e_id = 1, userId = ''test-user-id'', amount = 100, categoryId = ''cat-1'',
       date = 1767312000000, e_note = Some ''Test 1''\<rparr>,
      \<lparr>e_id = 2, userId = ''test-user-id'', amount = 200, categoryId = ''cat-1'',
       date = 1767398400000, e_note = Some ''Test 2''\<rparr>,
      \<lparr>e_id = 3, userId = ''test-user-id'', amount = 150, categoryId = ''cat-2'',
       date = 1767484800000, e_note = None\<rparr>,
      \<lparr>e_id = 4, userId = ''different-user-id'', amount = 75, categoryId = ''cat-1'',
       date = 1767484800000, e_note = None\<rparr>]"

definition test_world :: world where
  "test_world =
     \<lparr>session = Some test_user, categories = test_categories, expenses = test_expenses,
      nextId = 5, calls = []\<rparr>"

definition paging_world :: world where
  \<comment> \<open>twenty-five expenses of the signed-in user inside the window\<close>
  "paging_world =
     \<lparr>session = Some test_user, categories = test_categories,
      expenses = map (\<lambda>k. \<lparr>e_id = k, userId = ''test-user-id'', amount = 10,
                             categoryId = ''cat-1'', date = 1767312000000 + int k,
                             e_note = None\<rparr>) [0..<25],
      nextId = 25, calls = []\<rparr>"

definition seeded_world :: world where
  \<comment> \<open>the signed-in user, no expense yet, the categories the seed creates\<close>
  "seeded_world =
     seed_main (\<lambda>nm. ''id of '' @ nm)
       \<lparr>session = Some test_user, categories = [], expenses = [], nextId = 0, calls = []\<rparr>"

definition tenths_world :: world where
  \<comment> \<open>two expenses of the signed-in user, 0.10 and 0.20, both in Food\<close>
  "tenths_world =
     \<lparr>session = Some test_user, categories = test_categories,
      expenses =
        [\<lparr>e_id = 1, userId = ''test-user-id'', amount = 0.1, categoryId = ''cat-1'',
          date = 1767312000000, e_note = None\<rparr>,
         \<lparr>e_id = 2, userId = ''test-user-id'', amount = 0.2, categoryId = ''cat-1'',
          date = 1767398400000, e_note = None\<rparr>],
      nextId = 3, calls = []\<rparr>"

definition quarters_world :: world where
  \<comment> \<open>four expenses of the signed-in user whose amounts are binary fractions\<close>
  "quarters_world =
     \<lparr>session = Some test_user, categories = test_categories,
      expenses =
        [\<lparr>e_id = 1, userId = ''test-user-id'', amount = 12.5, categoryId = ''cat-1'',
          date = 1767312000000, e_note = None\<rparr>,
         \<lparr>e_id = 2, userId = ''test-user-id'', amount = 0.25, categoryId = ''cat-2'',
          date = 1767398400000, e_note = None\<rparr>,
         \<lparr>e_id = 3, userId = ''test-user-id'', amount = 45.5, categoryId = ''cat-1'',
          date = 1767484800000, e_note = None\<rparr>,
         \<lparr>e_id = 4, userId = ''test-user-id'', amount = 12.75, categoryId = ''cat-2'',
          date = 1767571200000, e_note = None\<rparr>],
      nextId = 5, calls = []\<rparr>"


definition signed_out :: "world \<Rightarrow> world" where
  "signed_out w = w\<lparr>session := None\<rparr>"

subsection \<open>What the database guarantees\<close>

definition ids_ok :: "world \<Rightarrow> bool" where
  \<comment> \<open>the primary key: ids are unique, and the generator has not reached a used id\<close>
  "ids_ok w = (distinct (map e_id (expenses w)) \<and> list_all (\<lambda>e. e_id e < nextId w) (expenses w))"

definition fk_ok :: "world \<Rightarrow> bool" where
  \<comment> \<open>the foreign key: every expense names a category of the table\<close>
  "fk_ok w = list_all (\<lambda>e. categoryId e \<in> set (map c_id (categories w))) (expenses w)"

section \<open>Properties\<close>

subsection \<open>createExpense rejects non-positive amounts\<close>

text \<open>
  C4. For a resolved caller and an amount \<open>\<le> 0\<close>, createExpense fails with the
  invalid-amount error (message "Amount must be greater than 0") and returns the world it
  was given: no row is inserted and no storage call is made.
\<close>

theorem createExpense_rejects_nonpositive_amount:
  assumes "getUser w = Some user" and "d_amount data \<le> 0"
  shows "createExpense data w = (Inl InvalidAmount, w)"
  using assms by (simp add: createExpense_def)

theorem createExpense_rejects_nonpositive_amount_witness:
  "getUser test_world = Some test_user
   \<and> d_amount \<lparr>d_amount = - 50, d_categoryId = ''cat-1'', d_date = Some 1770249600000,
                  d_note = None\<rparr> \<le> 0
   \<and> createExpense \<lparr>d_amount = - 50, d_categoryId = ''cat-1'', d_date = Some 1770249600000,
                      d_note = None\<rparr> test_world
       = (Inl (Error ''Amount must be greater than 0''), test_world)"
proof -
  have u: "getUser test_world = Some test_user"
    by (simp add: getUser_def test_world_def)
  have a: "d_amount \<lparr>d_amount = - 50, d_categoryId = ''cat-1'', d_date = Some 1770249600000,
                     d_note = None\<rparr> \<le> 0"
    by simp
  show ?thesis
    using u a createExpense_rejects_nonpositive_amount [OF u a]
    by (simp add: InvalidAmount_def)
qed

subsection \<open>deleteExpense does not tell a missing id from a foreign one\<close>

lemma find_unique_id:
  "distinct (map e_id xs) \<Longrightarrow> e \<in> set xs \<Longrightarrow> find (\<lambda>x. e_id x = e_id e) xs = Some e"
  by (induction xs) (auto simp: image_iff)

lemma find_absent_id:
  "i \<notin> e_id ` set xs \<Longrightarrow> find (\<lambda>x. e_id x = i) xs = None"
  by (induction xs) auto

text \<open>
  C5. For a resolved caller, deleteExpense on an id that no row has and deleteExpense on
  the id of a row owned by another user fail with the same error (message "Expense not
  found or unauthorized") and leave the same world behind: one lookup is logged and the
  expense table, the other user's row included, is as before.
\<close>

theorem deleteExpense_missing_same_as_foreign:
  assumes "getUser w = Some user"
    and "distinct (map e_id (expenses w))"
    and "missing \<notin> e_id ` set (expenses w)"
    and "other \<in> set (expenses w)" and "userId other \<noteq> user_id user"
  shows "fst (deleteExpense missing w) = Inl NotFoundOrUnauthorized
       \<and> fst (deleteExpense (e_id other) w) = Inl NotFoundOrUnauthorized
       \<and> snd (deleteExpense (e_id other) w) = snd (deleteExpense missing w)
       \<and> expenses (snd (deleteExpense missing w)) = expenses w
       \<and> expenses (snd (deleteExpense (e_id other) w)) = expenses w"
  using assms find_unique_id [of "expenses w" other] find_absent_id [of missing "expenses w"]
  by (simp add: deleteExpense_def prisma_expense_findUnique_def log_call_def)

theorem deleteExpense_missing_same_as_foreign_witness:
  "getUser test_world = Some test_user
   \<and> distinct (map e_id (expenses test_world))
   \<and> 99 \<notin> e_id ` set (expenses test_world)
   \<and> test_expenses ! 3 \<in> set (expenses test_world)
   \<and> userId (test_expenses ! 3) = ''different-user-id''
   \<and> fst (deleteExpense 99 test_world) = Inl (Error ''Expense not found or unauthorized'')
   \<and> fst (deleteExpense 4 test_world) = Inl (Error ''Expense not found or unauthorized'')
   \<and> expenses (snd (deleteExpense 99 test_world)) = test_expenses
   \<and> expenses (snd (deleteExpense 4 test_world)) = test_expenses"
proof -
  have u: "getUser test_world = Some test_user"
    by (simp add: getUser_def test_world_def)
  have d: "distinct (map e_id (expenses test_world))"
    by (simp add: test_world_def test_expenses_def)
  have m: "99 \<notin> e_id ` set (expenses test_world)"
    by (simp add: test_world_def test_expenses_def)
  have o: "test_expenses ! 3 \<in> set (expenses test_world)"
    by (simp add: test_world_def test_expenses_def)
  have f: "userId (test_expenses ! 3) \<noteq> user_id test_user"
    by (simp add: test_expenses_def test_user_def)
  have i: "e_id (test_expenses ! 3) = 4" and n: "userId (test_expenses ! 3) = ''different-user-id''"
    by (simp_all add: test_expenses_def)
  have e: "expenses test_world = test_expenses"
    by (simp add: test_world_def)
  show ?thesis
    using deleteExpense_missing_same_as_foreign [OF u d m o f] u d m o n
    by (simp add: i e NotFoundOrUnauthorized_def)
qed

subsection \<open>clearAllExpenses\<close>

text \<open>
  C7. For a resolved caller, clearAllExpenses returns the number of rows whose userId is
  the caller's id and leaves exactly the other rows, in their order. Called again at once
  it returns 0 and leaves the table as it is; when the caller has no rows, the first call
  already returns 0 and changes nothing in the table.
\<close>

theorem clearAllExpenses_removes_own:
  assumes "getUser w = Some user"
  shows "fst (clearAllExpenses w)
           = Inr (length (filter (\<lambda>e. userId e = user_id user) (expenses w)))
       \<and> expenses (snd (clearAllExpenses w))
           = filter (\<lambda>e. userId e \<noteq> user_id user) (expenses w)
       \<and> fst (clearAllExpenses (snd (clearAllExpenses w))) = Inr 0
       \<and> expenses (snd (clearAllExpenses (snd (clearAllExpenses w))))
           = expenses (snd (clearAllExpenses w))
       \<and> (if filter (\<lambda>e. userId e = user_id user) (expenses w) = []
          then fst (clearAllExpenses w) = Inr 0
             \<and> expenses (snd (clearAllExpenses w)) = expenses w
          else True)"
  using assms
  by (auto simp add: clearAllExpenses_def prisma_expense_deleteMany_def log_call_def getUser_def
      Let_def filter_empty_conv filter_id_conv)

theorem clearAllExpenses_removes_own_witness:
  "getUser test_world = Some test_user
   \<and> fst (clearAllExpenses test_world) = Inr 3
   \<and> expenses (snd (clearAllExpenses test_world)) = [test_expenses ! 3]
   \<and> fst (clearAllExpenses (snd (clearAllExpenses test_world))) = Inr 0
   \<and> expenses (snd (clearAllExpenses (snd (clearAllExpenses test_world))))
       = [test_expenses ! 3]"
proof -
  have u: "getUser test_world = Some test_user"
    by (simp add: getUser_def test_world_def)
  show ?thesis
    using clearAllExpenses_removes_own [OF u] u
    by (simp add: test_world_def test_expenses_def test_user_def)
qed

subsection \<open>Operations without a resolved caller\<close>

text \<open>
  C3, as the code has it. Without a resolved caller, getExpenses, getDashboardSummary,
  createExpense, deleteExpense, clearAllExpenses and createDemoExpenses fail with the
  error "Unauthorized" and return the world untouched: no storage call is logged and no
  row changes. getCategories has no guard: for every caller, resolved or not, it reads the
  category table and returns the categories sorted by name; it changes no expense.
\<close>

theorem no_caller_is_unauthorized:
  "(getUser w = None \<longrightarrow>
        getExpenses startDate endDate cid sortBy pg psize w = (Inl Unauthorized, w)
      \<and> getDashboardSummary startDate endDate w = (Inl Unauthorized, w)
      \<and> createExpense inp w = (Inl Unauthorized, w)
      \<and> deleteExpense i w = (Inl Unauthorized, w)
      \<and> clearAllExpenses w = (Inl Unauthorized, w)
      \<and> createDemoExpenses clock w = (Inl Unauthorized, w))
   \<and> getCategories w = (Inr (sort_key c_name (categories w)), log_call CategoryFindMany w)
   \<and> expenses (snd (getCategories w)) = expenses w"
  by (simp add: getExpenses_def getDashboardSummary_def createExpense_def deleteExpense_def
      clearAllExpenses_def createDemoExpenses_def getCategories_def
      prisma_category_findMany_def log_call_def)

theorem no_caller_is_unauthorized_witness:
  "getUser (signed_out test_world) = None
   \<and> getExpenses 1767225600000 1770249600000 (Some ''all'') date_desc 1 10
        (signed_out test_world) = (Inl (Error ''Unauthorized''), signed_out test_world)
   \<and> getDashboardSummary 1767225600000 1770249600000 (signed_out test_world)
       = (Inl (Error ''Unauthorized''), signed_out test_world)
   \<and> createExpense \<lparr>d_amount = 100, d_categoryId = ''cat-1'', d_date = Some 1770249600000,
                      d_note = Some ''Test expense''\<rparr> (signed_out test_world)
       = (Inl (Error ''Unauthorized''), signed_out test_world)
   \<and> deleteExpense 1 (signed_out test_world)
       = (Inl (Error ''Unauthorized''), signed_out test_world)
   \<and> clearAllExpenses (signed_out test_world)
       = (Inl (Error ''Unauthorized''), signed_out test_world)
   \<and> createDemoExpenses (\<lambda>k. 1770249600000) (signed_out test_world)
       = (Inl (Error ''Unauthorized''), signed_out test_world)
   \<and> fst (getCategories (signed_out test_world)) = Inr test_categories
   \<and> expenses (snd (getCategories (signed_out test_world))) = test_expenses
   \<and> getUser test_world = Some test_user
   \<and> fst (getCategories test_world) = Inr test_categories
   \<and> expenses (snd (getCategories test_world)) = test_expenses"
proof -
  have n: "getUser (signed_out test_world) = None"
    by (simp add: getUser_def signed_out_def)
  have u: "getUser test_world = Some test_user"
    by (simp add: getUser_def test_world_def)
  have s: "sort_key c_name test_categories = test_categories"
    by (simp add: test_categories_def)
  have c: "categories (signed_out test_world) = test_categories"
    "categories test_world = test_categories"
    "expenses (signed_out test_world) = test_expenses"
    "expenses test_world = test_expenses"
    by (simp_all add: signed_out_def test_world_def)
  note a = no_caller_is_unauthorized
    [of "signed_out test_world" 1767225600000 1770249600000 "Some ''all''" date_desc 1 10
        "\<lparr>d_amount = 100, d_categoryId = ''cat-1'', d_date = Some 1770249600000,
          d_note = Some ''Test expense''\<rparr>" 1 "\<lambda>k. 1770249600000"]
  note b = no_caller_is_unauthorized
    [of test_world 1767225600000 1770249600000 "Some ''all''" date_desc 1 10
        "\<lparr>d_amount = 100, d_categoryId = ''cat-1'', d_date = Some 1770249600000,
          d_note = Some ''Test expense''\<rparr>" 1 "\<lambda>k. 1770249600000"]
  have six: "getExpenses 1767225600000 1770249600000 (Some ''all'') date_desc 1 10
        (signed_out test_world) = (Inl Unauthorized, signed_out test_world)
      \<and> getDashboardSummary 1767225600000 1770249600000 (signed_out test_world)
          = (Inl Unauthorized, signed_out test_world)
      \<and> createExpense \<lparr>d_amount = 100, d_categoryId = ''cat-1'', d_date = Some 1770249600000,
                         d_note = Some ''Test expense''\<rparr> (signed_out test_world)
          = (Inl Unauthorized, signed_out test_world)
      \<and> deleteExpense 1 (signed_out test_world) = (Inl Unauthorized, signed_out test_world)
      \<and> clearAllExpenses (signed_out test_world) = (Inl Unauthorized, signed_out test_world)
      \<and> createDemoExpenses (\<lambda>k. 1770249600000) (signed_out test_world)
          = (Inl Unauthorized, signed_out test_world)"
    using a [THEN conjunct1] n by (rule mp)
  have g1: "fst (getCategories (signed_out test_world)) = Inr test_categories"
    by (simp add: a [THEN conjunct2, THEN conjunct1] c s)
  have e1: "expenses (snd (getCategories (signed_out test_world))) = test_expenses"
    using a [THEN conjunct2, THEN conjunct2] by (simp only: c)
  have g2: "fst (getCategories test_world) = Inr test_categories"
    by (simp add: b [THEN conjunct2, THEN conjunct1] c s)
  have e2: "expenses (snd (getCategories test_world)) = test_expenses"
    using b [THEN conjunct2, THEN conjunct2] by (simp only: c)
  show ?thesis
    using n u six g1 e1 g2 e2 by (simp add: Unauthorized_def)
qed

text \<open>
  The claim as stated fails at getCategories: signed out, it succeeds and has queried the
  category table.
\<close>

theorem getCategories_signed_out_counterexample:
  "getUser (signed_out test_world) = None
   \<and> fst (getCategories (signed_out test_world)) \<noteq> Inl Unauthorized
   \<and> getCategories (signed_out test_world)
       = (Inr [\<lparr>c_id = ''cat-1'', c_name = ''Food''\<rparr>, \<lparr>c_id = ''cat-2'', c_name = ''Transport''\<rparr>],
          (signed_out test_world)\<lparr>calls := [CategoryFindMany]\<rparr>)"
  by (simp add: getUser_def signed_out_def test_world_def getCategories_def
      prisma_category_findMany_def log_call_def test_categories_def)

subsection \<open>getExpenses\<close>

lemma those_with_category:
  "list_all (\<lambda>e. categoryId e \<in> set (map c_id cats)) rows \<Longrightarrow>
   \<exists>joined. those (map (with_category cats) rows) = Some joined
     \<and> map Some joined = map (with_category cats) rows"
proof (induction rows)
  case Nil
  then show ?case by simp
next
  case (Cons e rows)
  then obtain joined where j: "those (map (with_category cats) rows) = Some joined"
    "map Some joined = map (with_category cats) rows" by auto
  from Cons.prems have "categoryId e \<in> c_id ` set cats" by simp
  then obtain c where "find (\<lambda>c. c_id c = categoryId e) cats = Some c"
    by (cases "find (\<lambda>c. c_id c = categoryId e) cats") (auto simp: find_None_iff)
  then obtain x where "with_category cats e = Some x"
    by (simp add: with_category_def)
  with j show ?case by simp
qed

lemma list_all_subset:
  "list_all P xs \<Longrightarrow> set ys \<subseteq> set xs \<Longrightarrow> list_all P ys"
  by (auto simp: list_all_iff)

lemma set_order_rows: "set (order_rows ob rows) = set rows"
  by (auto simp add: order_rows_def split: order_by.splits direction.splits)

lemma order_rows_sorted:
  "sorted (map date (order_rows (ByDate asc) rows))"
  "sorted (map (\<lambda>e. - date e) (order_rows (ByDate desc) rows))"
  "sorted (map amount (order_rows (ByAmount asc) rows))"
  "sorted (map (\<lambda>e. - amount e) (order_rows (ByAmount desc) rows))"
  by (simp_all add: order_rows_def)

lemma length_order_rows: "length (order_rows ob rows) = length rows"
  by (auto simp add: order_rows_def split: order_by.splits direction.splits)

lemma getExpenses_result:
  assumes "getUser w = Some user" and "fk_ok w" and "1 \<le> pg" and "1 \<le> psize"
  shows "\<exists>res. getExpenses startDate endDate cid sortBy pg psize w
                 = (Inr res, log_call ExpenseFindMany (log_call ExpenseCount w))
     \<and> map Some (r_data res)
         = map (\<lambda>e. map_option amount_toNumber (with_category (categories w) e))
             (take (nat psize) (drop (nat ((pg - 1) * psize))
                (order_rows (orderBy sortBy)
                   (filter (\<lambda>e. userId e = user_id user \<and> startDate \<le> date e \<and> date e \<le> endDate
                               \<and> (case cid of None \<Rightarrow> True
                                    | Some c \<Rightarrow> c = [] \<or> c = ''all'' \<or> categoryId e = c))
                      (expenses w)))))
     \<and> r_pagination res
         = \<lparr>p_page = pg, p_pageSize = psize,
            p_total = length (filter (\<lambda>e. userId e = user_id user \<and> startDate \<le> date e
                               \<and> date e \<le> endDate
                               \<and> (case cid of None \<Rightarrow> True
                                    | Some c \<Rightarrow> c = [] \<or> c = ''all'' \<or> categoryId e = c))
                      (expenses w)),
            p_totalPages = Some \<lceil>rat_of_nat (length (filter (\<lambda>e. userId e = user_id user
                               \<and> startDate \<le> date e \<and> date e \<le> endDate
                               \<and> (case cid of None \<Rightarrow> True
                                    | Some c \<Rightarrow> c = [] \<or> c = ''all'' \<or> categoryId e = c))
                      (expenses w))) / rat_of_int psize\<rceil>\<rparr>"
proof -
  let ?P = "\<lambda>e. userId e = user_id user \<and> startDate \<le> date e \<and> date e \<le> endDate
                               \<and> (case cid of None \<Rightarrow> True
                                    | Some c \<Rightarrow> c = [] \<or> c = ''all'' \<or> categoryId e = c)"
  let ?wh = "where_clause (user_id user) startDate endDate (category_spread cid)"
  have wh: "?wh = ?P"
    by (auto simp: where_clause_def category_spread_def fun_eq_iff split: option.splits)
  let ?slice = "take (nat psize) (drop (nat ((pg - 1) * psize)) (order_rows (orderBy sortBy) (filter ?P (expenses w))))"
  have sub: "set ?slice \<subseteq> set (expenses w)"
    using set_take_subset set_drop_subset by (fastforce simp: set_order_rows)
  have "list_all (\<lambda>e. categoryId e \<in> set (map c_id (categories w))) ?slice"
    using assms(2) sub unfolding fk_ok_def by (rule list_all_subset)
  then obtain joined where j: "those (map (with_category (categories w)) ?slice) = Some joined"
    "map Some joined = map (with_category (categories w)) ?slice"
    using those_with_category by blast
  have sk: "0 \<le> (pg - 1) * psize" using assms(3,4) by simp
  have st: "skip_take (Some ((pg - 1) * psize, psize)) (order_rows (orderBy sortBy) (filter ?P (expenses w))) = Inr ?slice"
    using sk assms(4) by (simp add: skip_take_def)
  have m: "map Some (map amount_toNumber joined) = map (\<lambda>e. map_option amount_toNumber (with_category (categories w) e)) ?slice"
  proof -
    have "map Some (map amount_toNumber joined) = map (map_option amount_toNumber) (map Some joined)"
      by simp
    also have "\<dots> = map (map_option amount_toNumber) (map (with_category (categories w)) ?slice)"
      by (simp only: j(2))
    finally show ?thesis by simp
  qed
  have ps: "psize \<noteq> 0" using assms(4) by simp
  show ?thesis
    using assms(1) st j(1) m ps
    by (simp add: getExpenses_def wh prisma_expense_count_def prisma_expense_findMany_def
        log_call_def Let_def ceil_div_def)
qed

text \<open>
  C1, as the code has it. For a resolved caller, with \<open>page \<ge> 1\<close> and \<open>pageSize \<ge> 1\<close> and
  every expense naming an existing category, getExpenses succeeds after one count and one
  findMany. The matching rows are those with the caller's userId, a date in
  \<open>[startDate, endDate]\<close> (both ends included) and, when a non-empty categoryId other than
  "all" is given, that categoryId; absent, empty and "all" put no condition on the category.
  The data are the rows \<open>(page - 1) * pageSize\<close> up to \<open>pageSize\<close> further of the matching
  rows in the requested order, each joined with its category and its amount read as a
  number; the pagination is \<open>page\<close>, \<open>pageSize\<close>, the number of all matching rows and
  the ceiling of that number over \<open>pageSize\<close>.
\<close>

theorem getExpenses_page:
  assumes "getUser w = Some user" and "fk_ok w" and "1 \<le> pg" and "1 \<le> psize"
  shows "\<exists>res. getExpenses startDate endDate cid sortBy pg psize w
                 = (Inr res, log_call ExpenseFindMany (log_call ExpenseCount w))
     \<and> map Some (r_data res)
         = map (\<lambda>e. map_option amount_toNumber (with_category (categories w) e))
             (take (nat psize) (drop (nat ((pg - 1) * psize))
                (order_rows (orderBy sortBy)
                   (filter (\<lambda>e. userId e = user_id user \<and> startDate \<le> date e \<and> date e \<le> endDate
                               \<and> (case cid of None \<Rightarrow> True
                                    | Some c \<Rightarrow> c = [] \<or> c = ''all'' \<or> categoryId e = c))
                      (expenses w)))))
     \<and> r_pagination res
         = \<lparr>p_page = pg, p_pageSize = psize,
            p_total = length (filter (\<lambda>e. userId e = user_id user \<and> startDate \<le> date e
                               \<and> date e \<le> endDate
                               \<and> (case cid of None \<Rightarrow> True
                                    | Some c \<Rightarrow> c = [] \<or> c = ''all'' \<or> categoryId e = c))
                      (expenses w)),
            p_totalPages = Some \<lceil>rat_of_nat (length (filter (\<lambda>e. userId e = user_id user
                               \<and> startDate \<le> date e \<and> date e \<le> endDate
                               \<and> (case cid of None \<Rightarrow> True
                                    | Some c \<Rightarrow> c = [] \<or> c = ''all'' \<or> categoryId e = c))
                      (expenses w))) / rat_of_int psize\<rceil>\<rparr>"
  using assms by (rule getExpenses_result)

theorem getExpenses_page_witness:
  "getUser paging_world = Some test_user \<and> fk_ok paging_world \<and> (1::int) \<le> 1 \<and> (1::int) \<le> 10
   \<and> (case fst (getExpenses 1767225600000 1770249600000 (Some ''all'') date_desc 1 10
                   paging_world) of
        Inl err \<Rightarrow> False
      | Inr res \<Rightarrow> length (r_data res) = 10
          \<and> r_pagination res
              = \<lparr>p_page = 1, p_pageSize = 10, p_total = 25, p_totalPages = Some 3\<rparr>)"
proof -
  have u: "getUser paging_world = Some test_user"
    by (simp add: getUser_def paging_world_def)
  have f: "fk_ok paging_world"
    by (simp add: fk_ok_def paging_world_def test_categories_def list_all_iff)
  have n: "length (filter (\<lambda>e. userId e = user_id test_user \<and> 1767225600000 \<le> date e
                \<and> date e \<le> 1770249600000
                \<and> (case Some ''all'' of None \<Rightarrow> True
                     | Some c \<Rightarrow> c = [] \<or> c = ''all'' \<or> categoryId e = c))
             (expenses paging_world)) = 25"
    by code_simp
  obtain res where r: "getExpenses 1767225600000 1770249600000 (Some ''all'') date_desc 1 10
        paging_world = (Inr res, log_call ExpenseFindMany (log_call ExpenseCount paging_world))"
    and d: "map Some (r_data res)
         = map (\<lambda>e. map_option amount_toNumber (with_category (categories paging_world) e))
             (take (nat 10) (drop (nat ((1 - 1) * 10))
                (order_rows (orderBy date_desc)
                   (filter (\<lambda>e. userId e = user_id test_user \<and> 1767225600000 \<le> date e
                               \<and> date e \<le> 1770249600000
                               \<and> (case Some ''all'' of None \<Rightarrow> True
                                    | Some c \<Rightarrow> c = [] \<or> c = ''all'' \<or> categoryId e = c))
                      (expenses paging_world)))))"
    and p: "r_pagination res
         = \<lparr>p_page = 1, p_pageSize = 10,
            p_total = length (filter (\<lambda>e. userId e = user_id test_user \<and> 1767225600000 \<le> date e
                               \<and> date e \<le> 1770249600000
                               \<and> (case Some ''all'' of None \<Rightarrow> True
                                    | Some c \<Rightarrow> c = [] \<or> c = ''all'' \<or> categoryId e = c))
                      (expenses paging_world)),
            p_totalPages = Some \<lceil>rat_of_nat (length (filter (\<lambda>e. userId e = user_id test_user
                               \<and> 1767225600000 \<le> date e \<and> date e \<le> 1770249600000
                               \<and> (case Some ''all'' of None \<Rightarrow> True
                                    | Some c \<Rightarrow> c = [] \<or> c = ''all'' \<or> categoryId e = c))
                      (expenses paging_world))) / rat_of_int 10\<rceil>\<rparr>"
    using getExpenses_page [OF u f, of 1 10 1767225600000 1770249600000 "Some ''all''" date_desc]
    by auto
  have "length (map Some (r_data res)) = 10"
    by (simp only: d length_map length_take length_drop length_order_rows n) simp
  then have l: "length (r_data res) = 10" by simp
  have c: "\<lceil>(25::rat) / 10\<rceil> = 3" by (simp add: ceiling_eq_iff)
  have p': "r_pagination res = \<lparr>p_page = 1, p_pageSize = 10, p_total = 25, p_totalPages = Some 3\<rparr>"
    using p c by (simp only: n) simp
  show ?thesis using u f l p' by (simp add: r)
qed

text \<open>
  The claim as stated fails for the empty string: it is a categoryId other than "all", yet
  the guard \<^verbatim>\<open>categoryId && ...\<close> treats it as absent and rows of every category come back.
\<close>

theorem getExpenses_empty_categoryId_counterexample:
  "fst (getExpenses 1767225600000 1770249600000 (Some '''') date_desc 1 10 test_world)
     = Inr \<lparr>r_data =
              [\<lparr>e_id = 3, userId = ''test-user-id'', amount = 150, categoryId = ''cat-2'',
                date = 1767484800000, e_note = None,
                category = \<lparr>c_id = ''cat-2'', c_name = ''Transport''\<rparr>\<rparr>,
               \<lparr>e_id = 2, userId = ''test-user-id'', amount = 200, categoryId = ''cat-1'',
                date = 1767398400000, e_note = Some ''Test 2'',
                category = \<lparr>c_id = ''cat-1'', c_name = ''Food''\<rparr>\<rparr>,
               \<lparr>e_id = 1, userId = ''test-user-id'', amount = 100, categoryId = ''cat-1'',
                date = 1767312000000, e_note = Some ''Test 1'',
                category = \<lparr>c_id = ''cat-1'', c_name = ''Food''\<rparr>\<rparr>],
            r_pagination = \<lparr>p_page = 1, p_pageSize = 10, p_total = 3, p_totalPages = Some 1\<rparr>\<rparr>"
  by code_simp

subsection \<open>Create, then list\<close>

lemma length_filter_order_rows:
  "length (filter P (order_rows ob rows)) = length (filter P rows)"
  by (auto simp add: order_rows_def filter_sort split: order_by.splits direction.splits)

lemma with_category_fields:
  assumes "with_category cats e = Some x"
  shows "e_id x = e_id e" "userId x = userId e" "amount x = amount e"
    "categoryId x = categoryId e" "date x = date e" "e_note x = e_note e"
  using assms by (auto simp: with_category_def split: option.splits)

lemma amount_toNumber_fields:
  "e_id (amount_toNumber x) = e_id x" "userId (amount_toNumber x) = userId x"
  "amount (amount_toNumber x) = toNumber (amount x)"
  "categoryId (amount_toNumber x) = categoryId x" "date (amount_toNumber x) = date x"
  "e_note (amount_toNumber x) = e_note x" "category (amount_toNumber x) = category x"
  by (simp_all add: amount_toNumber_def)

lemma joined_rows:
  "map Some xs = map (\<lambda>e. map_option amount_toNumber (with_category cats e)) rows \<Longrightarrow>
   list_all2 (\<lambda>x e. e_id x = e_id e \<and> userId x = userId e \<and> amount x = toNumber (amount e)
                \<and> categoryId x = categoryId e \<and> date x = date e \<and> e_note x = e_note e) xs rows"
proof (induction rows arbitrary: xs)
  case Nil
  then show ?case by simp
next
  case (Cons e rows)
  then obtain x xs' where xs: "xs = x # xs'" by (cases xs) auto
  with Cons.prems have h: "Some x = map_option amount_toNumber (with_category cats e)"
    and t: "map Some xs' = map (\<lambda>e. map_option amount_toNumber (with_category cats e)) rows"
    by auto
  from h obtain y where y: "with_category cats e = Some y" "x = amount_toNumber y"
    by (cases "with_category cats e") auto
  show ?case
    using Cons.IH [OF t] with_category_fields [OF y(1)]
    by (simp add: xs y(2) amount_toNumber_fields)
qed

lemma count_id_joined:
  "list_all2 (\<lambda>x e. e_id x = e_id e \<and> Q x e) xs rows \<Longrightarrow>
   length (filter (\<lambda>x. e_id x = i) xs) = length (filter (\<lambda>e. e_id e = i) rows)"
  by (induction xs rows rule: list_all2_induct) auto

lemma list_all2_in_left:
  "list_all2 R xs ys \<Longrightarrow> x \<in> set xs \<Longrightarrow> \<exists>y \<in> set ys. R x y"
  by (induction xs ys rule: list_all2_induct) auto

text \<open>
  C8. For a resolved caller in a store with unique ids and valid category references:
  createExpense with a positive amount, a valid date and an existing category succeeds and
  appends one row carrying the generated id. Listing at once with a window that contains
  the date, no category filter, page 1 and a page size above the number of the caller's
  rows already in the window succeeds, and its data hold exactly one item with that id: the
  new expense, owned by the caller, with the submitted category, date and note and the
  submitted amount read back as a number.
\<close>

theorem createExpense_then_getExpenses:
  assumes u: "getUser w = Some user" and ids: "ids_ok w" and fk: "fk_ok w"
    and pos: "0 < d_amount inp" and dt: "d_date inp = Some t"
    and cat: "d_categoryId inp \<in> set (map c_id (categories w))"
    and win: "startDate \<le> t" "t \<le> endDate"
    and big: "int (length (filter (\<lambda>e. userId e = user_id user \<and> startDate \<le> date e
                                      \<and> date e \<le> endDate) (expenses w))) < psize"
  shows "\<exists>w1 res w2.
           createExpense inp w = (Inr (), w1)
         \<and> expenses w1 = expenses w @ [\<lparr>e_id = nextId w, userId = user_id user,
               amount = Decimal (d_amount inp), categoryId = d_categoryId inp, date = t,
               e_note = or_null (d_note inp)\<rparr>]
         \<and> getExpenses startDate endDate None sortBy 1 psize w1 = (Inr res, w2)
         \<and> length (filter (\<lambda>x. e_id x = nextId w) (r_data res)) = 1
         \<and> list_all (\<lambda>x. if e_id x = nextId w
                          then userId x = user_id user
                             \<and> amount x = toNumber (Decimal (d_amount inp))
                             \<and> categoryId x = d_categoryId inp \<and> date x = t
                             \<and> e_note x = or_null (d_note inp)
                          else True) (r_data res)"
proof -
  let ?e = "\<lparr>e_id = nextId w, userId = user_id user,
               amount = Decimal (d_amount inp), categoryId = d_categoryId inp, date = t,
               e_note = or_null (d_note inp)\<rparr>"
  let ?w1 = "(log_call ExpenseCreate w)\<lparr>expenses := expenses w @ [?e], nextId := Suc (nextId w)\<rparr>"
  have c: "createExpense inp w = (Inr (), ?w1)"
    using u pos dt cat
    by (simp add: createExpense_def prisma_expense_create_def log_call_def Let_def)
  have e1: "expenses ?w1 = expenses w @ [?e]" by (simp add: log_call_def)
  have u1: "getUser ?w1 = Some user" using u by (simp add: getUser_def log_call_def)
  have fk1: "fk_ok ?w1" using fk cat by (simp add: fk_ok_def log_call_def)
  let ?P = "\<lambda>e. userId e = user_id user \<and> startDate \<le> date e \<and> date e \<le> endDate
                \<and> (case None :: string option of None \<Rightarrow> True
                     | Some c \<Rightarrow> c = [] \<or> c = ''all'' \<or> categoryId e = c)"
  let ?rows = "order_rows (orderBy sortBy) (filter ?P (expenses ?w1))"
  have ps: "1 \<le> psize" using big by linarith
  obtain res where r: "getExpenses startDate endDate None sortBy 1 psize ?w1
                 = (Inr res, log_call ExpenseFindMany (log_call ExpenseCount ?w1))"
    and d: "map Some (r_data res)
         = map (\<lambda>e. map_option amount_toNumber (with_category (categories ?w1) e))
             (take (nat psize) (drop (nat ((1 - 1) * psize)) ?rows))"
    using getExpenses_result [OF u1 fk1 _ ps, of 1 startDate endDate None sortBy] by auto
  have len: "length ?rows \<le> nat psize"
    using big win by (simp add: length_order_rows e1)
  have sl: "take (nat psize) (drop (nat ((1 - 1) * psize)) ?rows) = ?rows"
    using len by simp
  have j: "list_all2 (\<lambda>x e. e_id x = e_id e \<and> userId x = userId e \<and> amount x = toNumber (amount e)
                \<and> categoryId x = categoryId e \<and> date x = date e \<and> e_note x = e_note e)
             (r_data res) ?rows"
    using d unfolding sl by (rule joined_rows)
  have old: "filter (\<lambda>e. e_id e = nextId w) (expenses w) = []"
    using ids by (auto simp: ids_ok_def list_all_iff filter_empty_conv)
  have "length (filter (\<lambda>x. e_id x = nextId w) (r_data res))
          = length (filter (\<lambda>e. e_id e = nextId w) ?rows)"
    using j by (rule count_id_joined)
  also have "\<dots> = length (filter (\<lambda>e. e_id e = nextId w) (filter ?P (expenses ?w1)))"
    by (rule length_filter_order_rows)
  also have "\<dots> = 1"
    using win old by (simp add: e1 filter_empty_conv)
  finally have one: "length (filter (\<lambda>x. e_id x = nextId w) (r_data res)) = 1" .
  have fields: "list_all (\<lambda>x. if e_id x = nextId w
                          then userId x = user_id user
                             \<and> amount x = toNumber (Decimal (d_amount inp))
                             \<and> categoryId x = d_categoryId inp \<and> date x = t
                             \<and> e_note x = or_null (d_note inp)
                          else True) (r_data res)"
  proof -
    have rows: "\<forall>e \<in> set ?rows. e_id e = nextId w \<longrightarrow> e = ?e"
      using old by (auto simp: set_order_rows e1 filter_empty_conv)
    show ?thesis
      unfolding list_all_iff
    proof
      fix x assume "x \<in> set (r_data res)"
      then obtain e where "e \<in> set ?rows" and xe: "e_id x = e_id e \<and> userId x = userId e
          \<and> amount x = toNumber (amount e) \<and> categoryId x = categoryId e \<and> date x = date e
          \<and> e_note x = e_note e"
        using list_all2_in_left [OF j] by blast
      with rows show "if e_id x = nextId w
                          then userId x = user_id user
                             \<and> amount x = toNumber (Decimal (d_amount inp))
                             \<and> categoryId x = d_categoryId inp \<and> date x = t
                             \<and> e_note x = or_null (d_note inp)
                          else True"
        by auto
    qed
  qed
  show ?thesis using c e1 r one fields by blast
qed

theorem createExpense_then_getExpenses_witness:
  "getUser test_world = Some test_user \<and> ids_ok test_world \<and> fk_ok test_world
   \<and> fst (createExpense \<lparr>d_amount = 100, d_categoryId = ''cat-1'',
                            d_date = Some 1770249600000, d_note = Some ''Test expense''\<rparr>
             test_world) = Inr ()
   \<and> (case fst (getExpenses 1767225600000 1770249600000 None date_desc 1 10
                   (snd (createExpense \<lparr>d_amount = 100, d_categoryId = ''cat-1'',
                                          d_date = Some 1770249600000,
                                          d_note = Some ''Test expense''\<rparr> test_world))) of
        Inl err \<Rightarrow> False
      | Inr res \<Rightarrow> length (filter (\<lambda>x. e_id x = 5) (r_data res)) = 1)"
proof -
  let ?inp = "\<lparr>d_amount = 100, d_categoryId = ''cat-1'', d_date = Some 1770249600000,
                d_note = Some ''Test expense''\<rparr>"
  have u: "getUser test_world = Some test_user"
    by (simp add: getUser_def test_world_def)
  have i: "ids_ok test_world"
    by (simp add: ids_ok_def test_world_def test_expenses_def)
  have f: "fk_ok test_world"
    by (simp add: fk_ok_def test_world_def test_expenses_def test_categories_def)
  have a: "0 < d_amount ?inp" and d: "d_date ?inp = Some 1770249600000"
    and c: "d_categoryId ?inp \<in> set (map c_id (categories test_world))"
    by (simp_all add: test_world_def test_categories_def)
  have b: "int (length (filter (\<lambda>e. userId e = user_id test_user \<and> 1767225600000 \<le> date e
                                 \<and> date e \<le> 1770249600000) (expenses test_world))) < 10"
    by (simp add: test_world_def test_expenses_def test_user_def)
  have n: "nextId test_world = 5"
    by (simp add: test_world_def)
  obtain w1 res w2 where "createExpense ?inp test_world = (Inr (), w1)"
    and "getExpenses 1767225600000 1770249600000 None date_desc 1 10 w1 = (Inr res, w2)"
    and "length (filter (\<lambda>x. e_id x = nextId test_world) (r_data res)) = 1"
    using createExpense_then_getExpenses [OF u i f a d c _ _ b, of date_desc] by auto
  then show ?thesis
    using u i f by (simp add: n)
qed

subsection \<open>createDemoExpenses\<close>

lemma first_error_all_Inr:
  "(\<And>x. x \<in> set xs \<Longrightarrow> f x = Inr (g x)) \<Longrightarrow> first_error (map f xs) = Inr (map g xs)"
  by (induction xs) auto

lemma first_error_TypeError:
  "\<exists>x \<in> set xs. f x = Inl TypeError \<Longrightarrow>
   (\<And>x. x \<in> set xs \<Longrightarrow> f x = Inl TypeError \<or> (\<exists>y. f x = Inr y)) \<Longrightarrow>
   first_error (map f xs) = Inl TypeError"
proof (induction xs)
  case Nil
  then show ?case by simp
next
  case (Cons a xs)
  show ?case
  proof (cases "f a")
    case (Inl e)
    with Cons.prems(2) [of a] show ?thesis by simp
  next
    case (Inr y)
    with Cons.prems(1) have "\<exists>x \<in> set xs. f x = Inl TypeError" by auto
    with Cons.IH Cons.prems(2) have "first_error (map f xs) = Inl TypeError" by auto
    with Inr show ?thesis by simp
  qed
qed

lemma demo_catalog_indices:
  "6 \<le> length cats \<Longrightarrow> list_all (\<lambda>ent. fst (snd ent) < length cats) (demo_catalog cats)"
  by (auto simp add: demo_catalog_def demo_catalog_base_def demo_catalog_travel_def
      demo_catalog_education_def demo_catalog_other_def nth_opt_def)

lemma length_demo_catalog:
  "length (demo_catalog cats)
     = 23 + (if 6 < length cats then 2 else 0) + (if 7 < length cats then 2 else 0)
          + (if 8 < length cats then 2 else 0)"
  by (simp add: demo_catalog_def demo_catalog_base_def demo_catalog_travel_def
      demo_catalog_education_def demo_catalog_other_def nth_opt_def)


lemma in_enumerate_snd: "x \<in> set (enumerate n xs) \<Longrightarrow> snd x \<in> set xs"
  by (induction xs arbitrary: n) auto

lemma demo_catalog_base_prefix:
  "\<exists>rest. demo_catalog cats = demo_catalog_base @ rest"
  by (simp add: demo_catalog_def)

lemma demoExpenses_ok:
  assumes "6 \<le> length cats"
  shows "demoExpenses cats clock
           = Inr (map (\<lambda>(i, ent). case ent of (a, k, days, n) \<Rightarrow>
                        \<lparr>x_amount = a, x_categoryId = c_id (cats ! k),
                         x_date = clock i - 86400000 * days, x_note = n\<rparr>)
                    (enumerate 0 (demo_catalog cats)))"
  unfolding demoExpenses_def
proof (rule first_error_all_Inr)
  fix x assume "x \<in> set (enumerate 0 (demo_catalog cats))"
  then have "snd x \<in> set (demo_catalog cats)"
    by (rule in_enumerate_snd)
  with demo_catalog_indices [OF assms] have "fst (snd (snd x)) < length cats"
    by (auto simp: list_all_iff)
  then show "(case x of (k, ent) \<Rightarrow> demo_entry cats (clock k) ent)
      = Inr (case x of (i, ent) \<Rightarrow> case ent of (a, k, days, n) \<Rightarrow>
                        \<lparr>x_amount = a, x_categoryId = c_id (cats ! k),
                         x_date = clock i - 86400000 * days, x_note = n\<rparr>)"
    by (auto simp: demo_entry_def nth_opt_def split: prod.splits)
qed

lemma demoExpenses_TypeError:
  assumes "length cats < 6"
  shows "demoExpenses cats clock = Inl TypeError"
  unfolding demoExpenses_def
proof (rule first_error_TypeError)
  have "(20, (200.00, 5, 10, ''Doctor checkup copay'')) \<in> set (enumerate 0 (demo_catalog cats))"
    by (simp add: demo_catalog_def demo_catalog_base_def in_set_enumerate_eq)
  moreover have "demo_entry cats (clock 20) (200.00, 5, 10, ''Doctor checkup copay'') = Inl TypeError"
    using assms by (simp add: demo_entry_def nth_opt_def)
  ultimately show "\<exists>x\<in>set (enumerate 0 (demo_catalog cats)).
       (case x of (k, ent) \<Rightarrow> demo_entry cats (clock k) ent) = Inl TypeError"
    by force
next
  fix x
  show "(case x of (k, ent) \<Rightarrow> demo_entry cats (clock k) ent) = Inl TypeError \<or>
         (\<exists>y. (case x of (k, ent) \<Rightarrow> demo_entry cats (clock k) ent) = Inr y)"
    by (auto simp: demo_entry_def split: prod.splits option.splits)
qed

lemma create_all_ok:
  "list_all (\<lambda>x. x_categoryId x \<in> set (map c_id (categories w))) xs \<Longrightarrow>
   fst (create_all uid xs w) = Inr ()
   \<and> expenses (snd (create_all uid xs w))
       = expenses w @ map (\<lambda>(i, x). \<lparr>e_id = nextId w + i, userId = uid,
                                      amount = Decimal (x_amount x),
                                      categoryId = x_categoryId x, date = x_date x,
                                      e_note = Some (x_note x)\<rparr>) (enumerate 0 xs)
   \<and> categories (snd (create_all uid xs w)) = categories w
   \<and> session (snd (create_all uid xs w)) = session w
   \<and> nextId (snd (create_all uid xs w)) = nextId w + length xs"
proof (induction xs arbitrary: w)
  case Nil
  then show ?case by simp
next
  case (Cons x xs)
  let ?e = "\<lparr>e_id = nextId w, userId = uid, amount = Decimal (x_amount x),
             categoryId = x_categoryId x, date = x_date x, e_note = Some (x_note x)\<rparr>"
  let ?w1 = "(log_call ExpenseCreate w)\<lparr>expenses := expenses w @ [?e], nextId := Suc (nextId w)\<rparr>"
  have c: "prisma_expense_create uid (Decimal (x_amount x)) (x_categoryId x)
             (Some (x_date x)) (Some (x_note x)) w = (Inr ?e, ?w1)"
    using Cons.prems by (simp add: prisma_expense_create_def log_call_def Let_def)
  have s: "create_all uid (x # xs) w = create_all uid xs ?w1"
    by (simp add: c)
  have "list_all (\<lambda>x. x_categoryId x \<in> set (map c_id (categories ?w1))) xs"
    using Cons.prems by (simp add: log_call_def)
  from Cons.IH [OF this]
  show ?case
    unfolding s
    by (simp add: log_call_def enumerate_Suc_eq [of 0] map_prod_def o_def split_def
        del: create_all.simps)
qed


lemma createDemoExpenses_ok:
  assumes u: "getUser w = Some user" and six: "6 \<le> length (categories w)"
  shows "fst (createDemoExpenses clock w) = Inr ()
       \<and> expenses (snd (createDemoExpenses clock w))
           = expenses w
             @ map (\<lambda>(i, ent). case ent of (a, k, days, n) \<Rightarrow>
                      \<lparr>e_id = nextId w + i, userId = user_id user, amount = a,
                       categoryId = c_id (categories w ! k),
                       date = clock i - 86400000 * days, e_note = Some n\<rparr>)
                 (enumerate 0 (demo_catalog (categories w)))
       \<and> categories (snd (createDemoExpenses clock w)) = categories w
       \<and> session (snd (createDemoExpenses clock w)) = session w"
proof -
  let ?cats = "categories w"
  let ?demo = "map (\<lambda>(i, ent). case ent of (a, k, days, n) \<Rightarrow>
                        \<lparr>x_amount = a, x_categoryId = c_id (?cats ! k),
                         x_date = clock i - 86400000 * days, x_note = n\<rparr>)
                    (enumerate 0 (demo_catalog ?cats))"
  let ?w1 = "log_call CategoryFindMany w"
  have d: "demoExpenses ?cats clock = Inr ?demo"
    using six by (rule demoExpenses_ok)
  have c: "createDemoExpenses clock w = create_all (user_id user) ?demo ?w1"
    using u d by (simp add: createDemoExpenses_def prisma_category_findMany_def)
  have ok: "list_all (\<lambda>x. x_categoryId x \<in> set (map c_id (categories ?w1))) ?demo"
    unfolding list_all_iff
  proof
    fix x assume "x \<in> set ?demo"
    then obtain p where p: "p \<in> set (enumerate 0 (demo_catalog ?cats))"
      and x: "x = (case p of (i, ent) \<Rightarrow> case ent of (a, k, days, n) \<Rightarrow>
                        \<lparr>x_amount = a, x_categoryId = c_id (?cats ! k),
                         x_date = clock i - 86400000 * days, x_note = n\<rparr>)"
      by auto
    from p have "snd p \<in> set (demo_catalog ?cats)" by (rule in_enumerate_snd)
    with demo_catalog_indices [OF six] have "fst (snd (snd p)) < length ?cats"
      by (auto simp: list_all_iff)
    then show "x_categoryId x \<in> set (map c_id (categories ?w1))"
      by (auto simp: x log_call_def split: prod.splits)
  qed
  have m: "map (\<lambda>(i, x). \<lparr>e_id = nextId ?w1 + i, userId = user_id user,
                                      amount = Decimal (x_amount x),
                                      categoryId = x_categoryId x, date = x_date x,
                                      e_note = Some (x_note x)\<rparr>) (enumerate 0 ?demo)
        = map (\<lambda>(i, ent). case ent of (a, k, days, n) \<Rightarrow>
                      \<lparr>e_id = nextId w + i, userId = user_id user, amount = a,
                       categoryId = c_id (?cats ! k),
                       date = clock i - 86400000 * days, e_note = Some n\<rparr>)
                 (enumerate 0 (demo_catalog ?cats))"
    by (rule nth_equalityI)
       (auto simp: nth_enumerate_eq log_call_def Decimal_def split: prod.splits)
  show ?thesis
    using create_all_ok [OF ok, of "user_id user"]
    by (simp only: c m) (simp add: log_call_def)
qed

lemma createDemoExpenses_fail:
  assumes "getUser w = Some user" and "length (categories w) < 6"
  shows "createDemoExpenses clock w = (Inl TypeError, log_call CategoryFindMany w)"
  using assms demoExpenses_TypeError [of "categories w" clock]
  by (simp add: createDemoExpenses_def prisma_category_findMany_def)

lemma upsert_names:
  "c_name ` set (categories (prisma_category_upsert i nm w))
     = insert nm (c_name ` set (categories w))"
proof (cases "find (\<lambda>c. c_name c = nm) (categories w)")
  case None
  then show ?thesis
    by (simp add: prisma_category_upsert_def log_call_def Let_def)
next
  case (Some c)
  then have "c \<in> set (categories w)" "c_name c = nm"
    by (auto simp: find_Some_iff)
  then have "nm \<in> c_name ` set (categories w)" by auto
  with Some show ?thesis
    by (auto simp add: prisma_category_upsert_def log_call_def Let_def)
qed

lemma fold_upsert_names:
  "c_name ` set (categories (fold (\<lambda>nm. prisma_category_upsert (g nm) nm) nms w))
     = set nms \<union> c_name ` set (categories w)"
  by (induction nms arbitrary: w) (auto simp: upsert_names)

lemma seed_main_nine: "9 \<le> length (categories (seed_main gen_id w))"
proof -
  let ?cs = "categories (seed_main gen_id w)"
  have "card (set seed_names) = 9"
    by (simp add: seed_names_def)
  moreover have "set seed_names \<subseteq> c_name ` set ?cs"
    by (simp add: seed_main_def fold_upsert_names)
  ultimately have "9 \<le> card (c_name ` set ?cs)"
    by (metis card_mono finite_imageI finite_set)
  also have "\<dots> \<le> card (set ?cs)" by (rule card_image_le) simp
  also have "\<dots> \<le> length ?cs" by (rule card_length)
  finally show ?thesis .
qed


text \<open>
  C9. For a resolved caller, the array literal of createDemoExpenses has 23 entries plus
  two for each of the 7th, 8th and 9th category that exists, so its length is fixed by the
  number of categories. With at least six categories the call succeeds and appends one row
  per entry, in order: owned by the caller, with the entry's amount and note, the id of
  the category at the entry's index and the date read from the clock for that entry minus
  the entry's days. The caller then owns that many rows more, and after a second call
  (whatever the clock shows then) twice that many more. With fewer than six categories
  the call inserts nothing.
\<close>

theorem createDemoExpenses_catalog:
  assumes "getUser w = Some user"
  shows "length (demo_catalog (categories w))
           = 23 + (if 6 < length (categories w) then 2 else 0)
                + (if 7 < length (categories w) then 2 else 0)
                + (if 8 < length (categories w) then 2 else 0)
       \<and> (if 6 \<le> length (categories w)
          then fst (createDemoExpenses clock w) = Inr ()
             \<and> expenses (snd (createDemoExpenses clock w))
                 = expenses w
                   @ map (\<lambda>(i, ent). case ent of (a, k, days, n) \<Rightarrow>
                            \<lparr>e_id = nextId w + i, userId = user_id user, amount = a,
                             categoryId = c_id (categories w ! k),
                             date = clock i - 86400000 * days, e_note = Some n\<rparr>)
                       (enumerate 0 (demo_catalog (categories w)))
             \<and> length (filter (\<lambda>e. userId e = user_id user)
                         (expenses (snd (createDemoExpenses clock w))))
                 = length (filter (\<lambda>e. userId e = user_id user) (expenses w))
                   + length (demo_catalog (categories w))
             \<and> length (filter (\<lambda>e. userId e = user_id user)
                         (expenses (snd (createDemoExpenses clock'
                                            (snd (createDemoExpenses clock w))))))
                 = length (filter (\<lambda>e. userId e = user_id user) (expenses w))
                   + 2 * length (demo_catalog (categories w))
          else createDemoExpenses clock w = (Inl TypeError, log_call CategoryFindMany w))"
proof (cases "6 \<le> length (categories w)")
  case False
  then show ?thesis
    using createDemoExpenses_fail [OF assms, of clock] length_demo_catalog [of "categories w"]
    by simp
next
  case True
  let ?own = "\<lambda>e. userId e = user_id user"
  let ?new = "\<lambda>w clock. map (\<lambda>(i, ent). case ent of (a, k, days, n) \<Rightarrow>
                            \<lparr>e_id = nextId w + i, userId = user_id user, amount = a,
                             categoryId = c_id (categories w ! k),
                             date = clock i - 86400000 * days, e_note = Some n\<rparr>)
                       (enumerate 0 (demo_catalog (categories w)))"
  let ?w1 = "snd (createDemoExpenses clock w)"
  have own_new: "filter ?own (?new v c) = ?new v c" for v c
    by (auto simp: filter_id_conv split: prod.splits)
  have len_new: "length (?new v c) = length (demo_catalog (categories v))" for v c
    by simp
  have one: "fst (createDemoExpenses clock w) = Inr ()"
    "expenses ?w1 = expenses w @ ?new w clock"
    "categories ?w1 = categories w" "session ?w1 = session w"
    using createDemoExpenses_ok [OF assms True, of clock] by simp_all
  have u1: "getUser ?w1 = Some user"
    using assms one(4) by (simp add: getUser_def)
  have six1: "6 \<le> length (categories ?w1)"
    using True one(3) by simp
  have two: "expenses (snd (createDemoExpenses clock' ?w1)) = expenses ?w1 @ ?new ?w1 clock'"
    using createDemoExpenses_ok [OF u1 six1, of clock'] by simp
  have cnt: "length (filter ?own (?new v c)) = length (demo_catalog (categories v))" for v c
    by (simp only: own_new len_new)
  have c1: "length (filter ?own (expenses ?w1))
              = length (filter ?own (expenses w)) + length (demo_catalog (categories w))"
    by (simp only: one(2) filter_append length_append cnt)
  have "length (filter ?own (expenses (snd (createDemoExpenses clock' ?w1))))
          = length (filter ?own (expenses ?w1)) + length (filter ?own (?new ?w1 clock'))"
    by (simp only: two filter_append length_append)
  also have "\<dots> = length (filter ?own (expenses ?w1)) + length (demo_catalog (categories ?w1))"
    by (simp only: cnt)
  finally have c2: "length (filter ?own (expenses (snd (createDemoExpenses clock' ?w1))))
              = length (filter ?own (expenses w)) + 2 * length (demo_catalog (categories w))"
    by (simp add: c1 one(3))
  show ?thesis
    using True one(1,2) c1 c2 length_demo_catalog [of "categories w"] by simp
qed

theorem createDemoExpenses_catalog_witness:
  "getUser seeded_world = Some test_user
   \<and> length (categories seeded_world) = 9
   \<and> fst (createDemoExpenses (\<lambda>k. 1770249600000 + int k) seeded_world) = Inr ()
   \<and> length (filter (\<lambda>e. userId e = ''test-user-id'')
               (expenses (snd (createDemoExpenses (\<lambda>k. 1770249600000 + int k) seeded_world))))
       = 29
   \<and> length (filter (\<lambda>e. userId e = ''test-user-id'')
               (expenses (snd (createDemoExpenses (\<lambda>k. 1770336000000 + int k)
                  (snd (createDemoExpenses (\<lambda>k. 1770249600000 + int k) seeded_world))))))
       = 58"
proof -
  have u: "getUser seeded_world = Some test_user" by code_simp
  have n: "length (categories seeded_world) = 9" by code_simp
  have e: "expenses seeded_world = []" by code_simp
  have i: "user_id test_user = ''test-user-id''" by (simp add: test_user_def)
  let ?c1 = "\<lambda>k. 1770249600000 + int k" and ?c2 = "\<lambda>k. 1770336000000 + int k"
  note t = createDemoExpenses_catalog [OF u, of ?c1 ?c2]
  have six: "6 \<le> length (categories seeded_world)" by (simp add: n)
  have l: "length (demo_catalog (categories seeded_world)) = 29"
    using t [THEN conjunct1] by (simp add: n)
  note b = t [THEN conjunct2, unfolded if_P [OF six]]
  have r: "fst (createDemoExpenses ?c1 seeded_world) = Inr ()"
    using b by (rule conjunct1)
  have c1: "length (filter (\<lambda>e. userId e = ''test-user-id'')
               (expenses (snd (createDemoExpenses ?c1 seeded_world)))) = 29"
    using b [THEN conjunct2, THEN conjunct2, THEN conjunct1] by (simp add: e i l)
  have c2: "length (filter (\<lambda>e. userId e = ''test-user-id'')
               (expenses (snd (createDemoExpenses ?c2
                  (snd (createDemoExpenses ?c1 seeded_world)))))) = 58"
    using b [THEN conjunct2, THEN conjunct2, THEN conjunct2] by (simp add: e i l)
  show ?thesis
    using u n r c1 c2 by simp
qed

text \<open>
  C10. The array literal reads \<^verbatim>\<open>categories[0]\<close> to \<^verbatim>\<open>categories[5]\<close> whatever the
  table holds, and the indices 6, 7 and 8 only when a category stands at that index. With at least six
  categories every index it reads is in range and the literal is built, one demo expense
  per entry; with fewer the construction throws a TypeError. The seed script leaves at
  least nine categories in the table.
\<close>

theorem demoExpenses_index_safety:
  "(if 6 \<le> length cats
    then list_all (\<lambda>ent. case nth_opt cats (fst (snd ent)) of None \<Rightarrow> False | Some c \<Rightarrow> True)
           (demo_catalog cats)
       \<and> (\<exists>demo. demoExpenses cats clock = Inr demo \<and> length demo = length (demo_catalog cats))
    else demoExpenses cats clock = Inl TypeError)
   \<and> map (\<lambda>ent. fst (snd ent)) (demo_catalog cats)
       = [0, 0, 0, 0, 0, 1, 1, 1, 1, 2, 2, 2, 2, 3, 3, 3, 3, 4, 4, 4, 5, 5, 5]
         @ (if 6 < length cats then [6, 6] else [])
         @ (if 7 < length cats then [7, 7] else [])
         @ (if 8 < length cats then [8, 8] else [])
   \<and> 9 \<le> length (categories (seed_main gen_id w))"
proof -
  have a: "list_all (\<lambda>ent. case nth_opt cats (fst (snd ent)) of None \<Rightarrow> False | Some c \<Rightarrow> True)
             (demo_catalog cats)
         \<and> (\<exists>demo. demoExpenses cats clock = Inr demo \<and> length demo = length (demo_catalog cats))"
    if "6 \<le> length cats"
    using demo_catalog_indices [OF that] demoExpenses_ok [OF that, of clock]
    by (simp add: list_all_iff nth_opt_def)
  have b: "map (\<lambda>ent. fst (snd ent)) (demo_catalog cats)
       = [0, 0, 0, 0, 0, 1, 1, 1, 1, 2, 2, 2, 2, 3, 3, 3, 3, 4, 4, 4, 5, 5, 5]
         @ (if 6 < length cats then [6, 6] else [])
         @ (if 7 < length cats then [7, 7] else [])
         @ (if 8 < length cats then [8, 8] else [])"
    by (simp add: demo_catalog_def demo_catalog_base_def demo_catalog_travel_def
        demo_catalog_education_def demo_catalog_other_def nth_opt_def)
  show ?thesis
    using a b demoExpenses_TypeError [of cats clock] seed_main_nine [of gen_id w]
    by (simp add: not_le)
qed

theorem demoExpenses_index_safety_witness:
  "6 \<le> length (categories seeded_world)
   \<and> (\<exists>demo. demoExpenses (categories seeded_world) (\<lambda>k. 1770249600000) = Inr demo
         \<and> length demo = 29)
   \<and> \<not> 6 \<le> length test_categories
   \<and> demoExpenses test_categories (\<lambda>k. 1770249600000) = Inl TypeError"
proof -
  have n: "length (categories seeded_world) = 9" by code_simp
  have l: "length (demo_catalog (categories seeded_world)) = 29" by code_simp
  have t: "length test_categories = 2" by (simp add: test_categories_def)
  show ?thesis
    using demoExpenses_index_safety [of "categories seeded_world" "\<lambda>k. 1770249600000"]
      demoExpenses_index_safety [of test_categories "\<lambda>k. 1770249600000"]
    by (simp add: n l t)
qed

subsection \<open>getDashboardSummary: grouping\<close>

lemma sum_amounts_snoc:
  "sum_amounts (xs @ [x]) = js_add (sum_amounts xs) (toNumber (amount x))"
  by (simp add: sum_amounts_def)

lemma map_of_append_new:
  "map_of al k = None \<Longrightarrow> map_of (al @ [(k, v)]) = (map_of al)(k \<mapsto> v)"
  by (auto simp: map_add_def fun_eq_iff split: option.splits)

lemma byCategory_invariant:
  "distinct (map fst (foldl byCategory_step [] exps))
   \<and> map_of (foldl byCategory_step [] exps)
       = (\<lambda>k. if k \<in> set (map (\<lambda>x. c_name (category x)) exps)
                  \<and> k \<notin> set Object_prototype_names
               then Some \<lparr>g_name = k,
                          g_total = sum_amounts (filter (\<lambda>x. c_name (category x) = k) exps),
                          g_count = length (filter (\<lambda>x. c_name (category x) = k) exps)\<rparr>
               else None)"
proof (induction exps rule: rev_induct)
  case Nil
  show ?case by (simp add: fun_eq_iff)
next
  case (snoc e exps)
  let ?acc = "foldl byCategory_step [] exps"
  let ?n = "c_name (category e)"
  let ?G = "\<lambda>xs k. \<lparr>g_name = k,
                   g_total = sum_amounts (filter (\<lambda>x. c_name (category x) = k) xs),
                   g_count = length (filter (\<lambda>x. c_name (category x) = k) xs)\<rparr>"
  have d: "distinct (map fst ?acc)" and m: "map_of ?acc
       = (\<lambda>k. if k \<in> set (map (\<lambda>x. c_name (category x)) exps)
                  \<and> k \<notin> set Object_prototype_names
               then Some (?G exps k) else None)"
    using snoc.IH by simp_all
  have f: "foldl byCategory_step [] (exps @ [e]) = byCategory_step ?acc e" by simp
  show ?case
  proof (cases "?n \<in> set Object_prototype_names")
    case True
    then have "byCategory_step ?acc e = ?acc"
      by (simp add: byCategory_step_def)
    with True d m show ?thesis
      unfolding f by (auto simp: fun_eq_iff)
  next
    case False
    let ?acc1 = "case map_of ?acc ?n of
                   None \<Rightarrow> ?acc @ [(?n, \<lparr>g_name = ?n, g_total = 0, g_count = 0\<rparr>)]
                 | Some g \<Rightarrow> ?acc"
    have s: "byCategory_step ?acc e
               = AList.map_entry ?n (add_amount (toNumber (amount e))) ?acc1"
      using False by (simp add: byCategory_step_def Let_def)
    have d1: "distinct (map fst ?acc1)"
      using d by (auto split: option.splits simp: map_of_eq_None_iff)
    have m1: "map_of ?acc1 = (\<lambda>k. if k = ?n \<or> (k \<in> set (map (\<lambda>x. c_name (category x)) exps)
                  \<and> k \<notin> set Object_prototype_names)
               then Some (?G exps k) else None)"
    proof (cases "map_of ?acc ?n")
      case None
      then have notin: "?n \<notin> set (map (\<lambda>x. c_name (category x)) exps)"
        using False by (auto simp: m split: if_splits)
      then have e0: "filter (\<lambda>x. c_name (category x) = ?n) exps = []"
        by (auto simp: filter_empty_conv image_iff)
      have "map_of ?acc1 = (map_of ?acc)(?n \<mapsto> \<lparr>g_name = ?n, g_total = 0, g_count = 0\<rparr>)"
        using None by (simp only: option.case) (rule map_of_append_new)
      then show ?thesis
        by (auto simp: m fun_eq_iff e0 sum_amounts_def)
    next
      case (Some g)
      then have "?n \<in> set (map (\<lambda>x. c_name (category x)) exps)"
        by (auto simp: m split: if_splits)
      with Some False show ?thesis
        by (auto simp: m fun_eq_iff)
    qed
    have a: "add_amount (toNumber (amount e)) (?G exps ?n) = ?G (exps @ [e]) ?n"
      by (simp add: add_amount_def sum_amounts_snoc)
    have o: "k \<noteq> ?n \<Longrightarrow> ?G (exps @ [e]) k = ?G exps k" for k
      by simp
    have "map_of (byCategory_step ?acc e)
            = (\<lambda>k. if k \<in> set (map (\<lambda>x. c_name (category x)) (exps @ [e]))
                  \<and> k \<notin> set Object_prototype_names
               then Some (?G (exps @ [e]) k) else None)"
      unfolding s map_of_map_entry m1
      using False a by (auto simp: fun_eq_iff)
    moreover have "distinct (map fst (byCategory_step ?acc e))"
      unfolding s using d1 by (rule distinct_map_entry)
    ultimately show ?thesis unfolding f by simp
  qed
qed


lemma set_Object_values: "set (Object_values obj) = snd ` set obj"
  by (auto simp: Object_values_def)

lemma length_Object_values: "length (Object_values obj) = length obj"
  by (simp add: Object_values_def sum_length_filter_compl)

lemma distinct_map_same_set:
  assumes "distinct (map f xs)" and "set ys = set xs" and "length ys = length xs"
  shows "distinct (map f ys)"
proof (rule card_distinct)
  have "card (set (map f ys)) = card (set (map f xs))"
    using assms(2) by simp
  also have "\<dots> = length (map f xs)"
    using assms(1) by (rule distinct_card)
  finally show "card (set (map f ys)) = length (map f ys)"
    using assms(3) by simp
qed

lemma byCategory_groups:
  fixes exps :: "ExpenseWithCategory list"
  defines "bc \<equiv> sort_total_desc (Object_values (foldl byCategory_step [] exps))"
  shows "distinct (map g_name bc)"
    and "set (map g_name bc)
           = set (map (\<lambda>x. c_name (category x)) exps) - set Object_prototype_names"
    and "list_all (\<lambda>g. g_count g = length (filter (\<lambda>x. c_name (category x) = g_name g) exps)
                      \<and> g_total g
                          = sum_amounts (filter (\<lambda>x. c_name (category x) = g_name g) exps)) bc"
    and "sorted (map (\<lambda>g. - g_total g) bc)"
proof -
  let ?acc = "foldl byCategory_step [] exps"
  let ?G = "\<lambda>k. \<lparr>g_name = k,
                   g_total = sum_amounts (filter (\<lambda>x. c_name (category x) = k) exps),
                   g_count = length (filter (\<lambda>x. c_name (category x) = k) exps)\<rparr>"
  have d: "distinct (map fst ?acc)" and m: "map_of ?acc
       = (\<lambda>k. if k \<in> set (map (\<lambda>x. c_name (category x)) exps)
                  \<and> k \<notin> set Object_prototype_names
               then Some (?G k) else None)"
    using byCategory_invariant [of exps] by simp_all
  have mem: "(k, g) \<in> set ?acc \<longleftrightarrow>
               k \<in> set (map (\<lambda>x. c_name (category x)) exps)
               \<and> k \<notin> set Object_prototype_names \<and> g = ?G k" for k g
  proof -
    have "(k, g) \<in> set ?acc \<longleftrightarrow> map_of ?acc k = Some g"
      using d by simp
    then show ?thesis by (auto simp: m)
  qed
  have sb: "set bc = snd ` set ?acc"
    by (simp add: bc_def sort_total_desc_def set_Object_values)
  have lb: "length bc = length (map snd ?acc)"
    by (simp add: bc_def sort_total_desc_def length_Object_values)
  have nf: "map g_name (map snd ?acc) = map fst ?acc"
    using mem by (auto simp: map_eq_conv)
  show "distinct (map g_name bc)"
  proof (rule distinct_map_same_set)
    show "distinct (map g_name (map snd ?acc))" using d by (simp only: nf)
    show "set bc = set (map snd ?acc)" using sb by simp
    show "length bc = length (map snd ?acc)" by (rule lb)
  qed
  show "set (map g_name bc)
           = set (map (\<lambda>x. c_name (category x)) exps) - set Object_prototype_names"
  proof -
    have "set (map g_name bc) = fst ` set ?acc"
      using nf sb by (metis image_set)
    also have "\<dots> = set (map (\<lambda>x. c_name (category x)) exps) - set Object_prototype_names"
    proof (rule set_eqI)
      fix k
      have "k \<in> fst ` set ?acc \<longleftrightarrow> (\<exists>g. (k, g) \<in> set ?acc)"
        by force
      also have "\<dots> \<longleftrightarrow> k \<in> set (map (\<lambda>x. c_name (category x)) exps)
                         \<and> k \<notin> set Object_prototype_names"
        by (simp only: mem) blast
      finally show "k \<in> fst ` set ?acc \<longleftrightarrow>
          k \<in> set (map (\<lambda>x. c_name (category x)) exps) - set Object_prototype_names"
        by simp
    qed
    finally show ?thesis .
  qed
  show "list_all (\<lambda>g. g_count g = length (filter (\<lambda>x. c_name (category x) = g_name g) exps)
                      \<and> g_total g
                          = sum_amounts (filter (\<lambda>x. c_name (category x) = g_name g) exps)) bc"
    unfolding list_all_iff sb using mem by auto
  show "sorted (map (\<lambda>g. - g_total g) bc)"
    by (simp add: bc_def sort_total_desc_def)
qed



lemma getDashboardSummary_result:
  assumes "getUser w = Some user" and "fk_ok w"
  shows "\<exists>exps. map Some exps
                  = map (with_category (categories w))
                      (filter (\<lambda>e. userId e = user_id user \<and> startDate \<le> date e
                                   \<and> date e \<le> endDate) (expenses w))
     \<and> getDashboardSummary startDate endDate w
         = (Inr \<lparr>s_total = sum_amounts exps, s_count = length exps,
                 s_byCategory =
                   sort_total_desc (Object_values (foldl byCategory_step [] exps))\<rparr>,
            log_call ExpenseFindMany w)"
proof -
  let ?rows = "filter (\<lambda>e. userId e = user_id user \<and> startDate \<le> date e
                                   \<and> date e \<le> endDate) (expenses w)"
  have wh: "where_clause (user_id user) startDate endDate None
              = (\<lambda>e. userId e = user_id user \<and> startDate \<le> date e \<and> date e \<le> endDate)"
    by (simp add: where_clause_def fun_eq_iff)
  have "list_all (\<lambda>e. categoryId e \<in> set (map c_id (categories w))) ?rows"
    using assms(2) unfolding fk_ok_def by (rule list_all_subset) simp
  then obtain exps where j: "those (map (with_category (categories w)) ?rows) = Some exps"
    "map Some exps = map (with_category (categories w)) ?rows"
    using those_with_category by blast
  have "getDashboardSummary startDate endDate w
         = (Inr \<lparr>s_total = sum_amounts exps, s_count = length exps,
                 s_byCategory =
                   sort_total_desc (Object_values (foldl byCategory_step [] exps))\<rparr>,
            log_call ExpenseFindMany w)"
    using assms(1) j(1)
    by (simp add: getDashboardSummary_def prisma_expense_findMany_def wh skip_take_def
        order_rows_def log_call_def Let_def)
  with j(2) show ?thesis by blast
qed

lemma joined_amounts:
  "map Some exps = map (with_category cats) rows \<Longrightarrow> map amount exps = map amount rows"
proof (induction rows arbitrary: exps)
  case Nil
  then show ?case by simp
next
  case (Cons e rows)
  then obtain y ys where "exps = y # ys" by (cases exps) auto
  with Cons show ?case
    by (auto dest: with_category_fields(3) [OF sym])
qed

lemma sum_list_filter_le:
  "list_all (\<lambda>x. 0 \<le> f x) xs \<Longrightarrow>
   sum_list (map f (filter P xs)) \<le> (sum_list (map f xs) :: rat)"
  by (induction xs) (auto intro: add_increasing)




subsection \<open>getDashboardSummary: sums of numbers\<close>

lemma round_half_even_of_int: "round_half_even (of_int m) = m"
  by (simp add: round_half_even_def)

lemma ilog2_of_int:
  assumes "0 < a"
  shows "ilog2 (of_int a) = bitlen a - 1"
proof -
  have b1: "bitlen 1 = 1" by (simp add: bitlen_alt_def)
  have ge: "1 \<le> bitlen a" using assms by (auto simp: bitlen_alt_def)
  have "(2::int) ^ nat (bitlen a - 1) \<le> a"
    using bitlen_bounds [OF assms] by simp
  then have "of_int ((2::int) ^ nat (bitlen a - 1)) \<le> (of_int a :: rat)"
    by (simp only: of_int_le_iff)
  then have "(2::rat) powi (bitlen a - 1) \<le> of_int a"
    using ge by (simp add: power_int_nonneg_exp)
  then show ?thesis
    by (simp add: ilog2_def quotient_of_int b1 Let_def)
qed

lemma fl_of_int:
  assumes "\<bar>n\<bar> < 2 ^ 53"
  shows "fl (of_int n) = of_int n"
proof (cases "n = 0")
  case True
  then show ?thesis by (simp add: fl_def)
next
  case False
  let ?a = "\<bar>n\<bar>"
  let ?k = "bitlen ?a - 1"
  have pos: "0 < ?a" using False by simp
  have ge: "0 \<le> ?k" using pos by (auto simp: bitlen_alt_def)
  have "bitlen ?a \<le> 53"
    using assms by (simp add: bitlen_le_iff_power)
  then have le: "?k \<le> 52" by simp
  have il: "ilog2 \<bar>of_int n :: rat\<bar> = ?k"
    using ilog2_of_int [OF pos] by simp
  have e: "max (?k - 52) (- 1074) = - int (nat (52 - ?k))"
    using ge le by simp
  have p: "(2::rat) powi (- int (nat (52 - ?k))) = 1 / 2 ^ nat (52 - ?k)"
    by (simp only: power_int_minus_divide power_int_of_nat)
  have q: "(of_int n :: rat) / (1 / 2 ^ nat (52 - ?k)) = of_int (n * 2 ^ nat (52 - ?k))"
    by simp
  have "fl (of_int n) = of_int (round_half_even (of_int n / (1 / 2 ^ nat (52 - ?k))))
                          * (1 / 2 ^ nat (52 - ?k))"
    using False by (simp only: fl_def il e p Let_def) simp
  also have "\<dots> = of_int (n * 2 ^ nat (52 - ?k)) * (1 / 2 ^ nat (52 - ?k))"
    by (simp only: q round_half_even_of_int)
  also have "\<dots> = of_int n" by simp
  finally show ?thesis .
qed

lemma foldl_js_add_exact:
  "exactly_summable s (map amount xs) \<Longrightarrow>
   foldl (\<lambda>sum expense. js_add sum (toNumber (amount expense))) s xs
     = s + sum_list (map amount xs)"
  by (induction xs arbitrary: s) (simp_all add: add.assoc)

lemma sum_amounts_exact:
  "exactly_summable 0 (map amount xs) \<Longrightarrow> sum_amounts xs = sum_list (map amount xs)"
  using foldl_js_add_exact [of 0 xs] by (simp add: sum_amounts_def)

lemma whole_amounts_exactly_summable:
  assumes "list_all (\<lambda>d. \<exists>m::nat. d = of_nat m) ds"
    and "\<exists>m::nat. s = of_nat m" and "s + sum_list ds < 2 ^ 53"
  shows "exactly_summable s ds"
  using assms
proof (induction ds arbitrary: s)
  case Nil
  then show ?case by simp
next
  case (Cons d ds)
  from Cons.prems obtain m k :: nat where d: "d = of_nat m" and s: "s = of_nat k"
    by auto
  have nn: "0 \<le> sum_list ds"
    using Cons.prems(1) by (auto intro!: sum_list_nonneg simp: list_all_iff)
  have b: "s + d < 2 ^ 53" using Cons.prems(3) nn by simp
  then have "rat_of_nat (k + m) < 2 ^ 53"
    unfolding d s by simp
  then have km: "k + m < 2 ^ 53"
    by (simp only: of_nat_less_numeral_power_cancel_iff)
  then have "m < 2 ^ 53" by simp
  then have bm: "\<bar>int m\<bar> < 2 ^ 53"
    by (metis abs_of_nat of_nat_less_numeral_power_cancel_iff)
  have bk: "\<bar>int (k + m)\<bar> < 2 ^ 53"
    using km by (metis abs_of_nat of_nat_less_numeral_power_cancel_iff)
  have f1: "fl d = d"
    using fl_of_int [of "int m"] bm by (simp add: d)
  have f2: "fl (s + d) = s + d"
    using fl_of_int [of "int (k + m)"] bk by (simp add: d s)
  have "exactly_summable (s + d) ds"
  proof (rule Cons.IH)
    show "list_all (\<lambda>d. \<exists>m::nat. d = of_nat m) ds" using Cons.prems(1) by simp
    show "\<exists>m::nat. s + d = of_nat m" unfolding d s by (metis of_nat_add)
    show "s + d + sum_list ds < 2 ^ 53" using Cons.prems(3) by (simp add: add.assoc)
  qed
  then show ?case
    by (simp add: f1 f2 toNumber_def js_add_def)
qed

text \<open>
  C6, as the code has it. The amounts are decimals at rest, but getDashboardSummary adds
  them as binary64 numbers: for a resolved caller, the total is the amounts of the
  caller's expenses in the window, each read as a number, added from left to right with
  a rounding at every step, and the total of every entry of byCategory is the amounts of
  its group added the same way. Where no amount and no partial sum is rounded, the total
  (and likewise the total of a group) is the exact sum of the amounts. That is so, for
  the total and for every group, when the amounts in the window are whole numbers whose
  sum is below \<open>2^53\<close>.
\<close>

theorem getDashboardSummary_binary64_sums:
  assumes "getUser w = Some user" and "fk_ok w"
  shows "\<exists>exps sm.
           map Some exps
             = map (with_category (categories w))
                 (filter (\<lambda>e. userId e = user_id user \<and> startDate \<le> date e
                              \<and> date e \<le> endDate) (expenses w))
         \<and> getDashboardSummary startDate endDate w = (Inr sm, log_call ExpenseFindMany w)
         \<and> s_total sm = foldl (\<lambda>sum x. fl (sum + fl (amount x))) 0 exps
         \<and> list_all (\<lambda>g. g_total g
                            = foldl (\<lambda>sum x. fl (sum + fl (amount x))) 0
                                (filter (\<lambda>x. c_name (category x) = g_name g) exps))
              (s_byCategory sm)
         \<and> (exactly_summable 0 (map amount exps)
              \<longrightarrow> s_total sm = sum_list (map amount exps))
         \<and> list_all (\<lambda>g. exactly_summable 0
                             (map amount (filter (\<lambda>x. c_name (category x) = g_name g) exps))
                        \<longrightarrow> g_total g
                            = sum_list (map amount
                                (filter (\<lambda>x. c_name (category x) = g_name g) exps)))
              (s_byCategory sm)
         \<and> (list_all (\<lambda>e. \<exists>m::nat. amount e = of_nat m)
                (filter (\<lambda>e. userId e = user_id user \<and> startDate \<le> date e
                             \<and> date e \<le> endDate) (expenses w))
              \<and> sum_list (map amount
                    (filter (\<lambda>e. userId e = user_id user \<and> startDate \<le> date e
                                 \<and> date e \<le> endDate) (expenses w))) < 2 ^ 53
              \<longrightarrow> s_total sm = sum_list (map amount exps)
                \<and> list_all (\<lambda>g. g_total g
                                   = sum_list (map amount
                                       (filter (\<lambda>x. c_name (category x) = g_name g) exps)))
                     (s_byCategory sm))"
proof -
  let ?rows = "filter (\<lambda>e. userId e = user_id user \<and> startDate \<le> date e \<and> date e \<le> endDate)
                 (expenses w)"
  obtain exps where j: "map Some exps = map (with_category (categories w)) ?rows"
    and r: "getDashboardSummary startDate endDate w
         = (Inr \<lparr>s_total = sum_amounts exps, s_count = length exps,
                 s_byCategory =
                   sort_total_desc (Object_values (foldl byCategory_step [] exps))\<rparr>,
            log_call ExpenseFindMany w)"
    using getDashboardSummary_result [OF assms(1,2)] by blast
  let ?bc = "sort_total_desc (Object_values (foldl byCategory_step [] exps))"
  let ?sm = "\<lparr>s_total = sum_amounts exps, s_count = length exps, s_byCategory = ?bc\<rparr>"
  let ?grp = "\<lambda>g. filter (\<lambda>x. c_name (category x) = g_name g) exps"
  have sa: "sum_amounts xs = foldl (\<lambda>sum x. fl (sum + fl (amount x))) 0 xs" for xs
    by (simp add: sum_amounts_def js_add_def toNumber_def)
  have grp: "list_all (\<lambda>g. g_total g = sum_amounts (?grp g)) ?bc"
    using byCategory_groups(3) [of exps] by (simp add: list_all_iff)
  have m1: "s_total ?sm = foldl (\<lambda>sum x. fl (sum + fl (amount x))) 0 exps"
    by (simp add: sa)
  have m2: "list_all (\<lambda>g. g_total g = foldl (\<lambda>sum x. fl (sum + fl (amount x))) 0 (?grp g))
              (s_byCategory ?sm)"
    using grp by (simp add: sa)
  have x1: "exactly_summable 0 (map amount exps) \<longrightarrow> s_total ?sm = sum_list (map amount exps)"
    by (simp add: sum_amounts_exact)
  have x2: "list_all (\<lambda>g. exactly_summable 0 (map amount (?grp g))
                        \<longrightarrow> g_total g = sum_list (map amount (?grp g)))
              (s_byCategory ?sm)"
    using grp by (simp add: list_all_iff sum_amounts_exact)
  have x3: "s_total ?sm = sum_list (map amount exps)
            \<and> list_all (\<lambda>g. g_total g = sum_list (map amount (?grp g))) (s_byCategory ?sm)"
    if w1: "list_all (\<lambda>e. \<exists>m::nat. amount e = of_nat m) ?rows"
      and w2: "sum_list (map amount ?rows) < 2 ^ 53"
  proof -
    have am: "map amount exps = map amount ?rows"
      using j by (rule joined_amounts)
    have "list_all (\<lambda>d. \<exists>m::nat. d = of_nat m) (map amount ?rows)"
      using w1 by (simp add: list_all_iff)
    then have whole: "list_all (\<lambda>d. \<exists>m::nat. d = of_nat m) (map amount exps)"
      by (simp only: am)
    have bound: "sum_list (map amount exps) < 2 ^ 53"
      using w2 by (simp only: am)
    have nonneg: "list_all (\<lambda>x. 0 \<le> amount x) exps"
      using whole by (auto simp: list_all_iff)
    have ex: "sum_amounts (filter P exps) = sum_list (map amount (filter P exps))" for P
    proof (rule sum_amounts_exact, rule whole_amounts_exactly_summable)
      show "list_all (\<lambda>d. \<exists>m::nat. d = of_nat m) (map amount (filter P exps))"
        using whole by (auto simp: list_all_iff)
      show "\<exists>m::nat. (0::rat) = of_nat m" by (rule exI [of _ 0]) simp
      have "sum_list (map amount (filter P exps)) \<le> sum_list (map amount exps)"
        using nonneg by (rule sum_list_filter_le)
      with bound show "0 + sum_list (map amount (filter P exps)) < 2 ^ 53" by simp
    qed
    have t: "sum_amounts exps = sum_list (map amount exps)"
      using ex [of "\<lambda>x. True"] by simp
    show ?thesis
      using grp t by (simp add: list_all_iff ex)
  qed
  have "map Some exps = map (with_category (categories w)) ?rows
         \<and> getDashboardSummary startDate endDate w = (Inr ?sm, log_call ExpenseFindMany w)
         \<and> s_total ?sm = foldl (\<lambda>sum x. fl (sum + fl (amount x))) 0 exps
         \<and> list_all (\<lambda>g. g_total g = foldl (\<lambda>sum x. fl (sum + fl (amount x))) 0 (?grp g))
              (s_byCategory ?sm)
         \<and> (exactly_summable 0 (map amount exps)
              \<longrightarrow> s_total ?sm = sum_list (map amount exps))
         \<and> list_all (\<lambda>g. exactly_summable 0 (map amount (?grp g))
                        \<longrightarrow> g_total g = sum_list (map amount (?grp g)))
              (s_byCategory ?sm)
         \<and> (list_all (\<lambda>e. \<exists>m::nat. amount e = of_nat m) ?rows
              \<and> sum_list (map amount ?rows) < 2 ^ 53
              \<longrightarrow> s_total ?sm = sum_list (map amount exps)
                \<and> list_all (\<lambda>g. g_total g = sum_list (map amount (?grp g)))
                     (s_byCategory ?sm))"
    using j r m1 m2 x1 x2 x3 by (intro conjI impI) (simp_all only: simp_thms)
  then show ?thesis
    by - (rule exI, rule exI, assumption)
qed


theorem getDashboardSummary_binary64_sums_witness:
  "getUser quarters_world = Some test_user \<and> fk_ok quarters_world
   \<and> exactly_summable 0 (map amount (expenses quarters_world))
   \<and> sum_list (map amount (expenses quarters_world)) = 71
   \<and> fst (getDashboardSummary 1767225600000 1770249600000 quarters_world)
       = Inr \<lparr>s_total = 71, s_count = 4,
               s_byCategory = [\<lparr>g_name = ''Food'', g_total = 58, g_count = 2\<rparr>,
                               \<lparr>g_name = ''Transport'', g_total = 13, g_count = 2\<rparr>]\<rparr>
   \<and> getUser test_world = Some test_user \<and> fk_ok test_world
   \<and> (case fst (getDashboardSummary 1767225600000 1770249600000 test_world) of
        Inl err \<Rightarrow> False
      | Inr sm \<Rightarrow> s_total sm = 100 + 200 + 150 \<and> map g_total (s_byCategory sm) = [300, 150])"
proof -
  let ?qrows = "filter (\<lambda>e. userId e = user_id test_user \<and> 1767225600000 \<le> date e
                           \<and> date e \<le> 1770249600000) (expenses quarters_world)"
  let ?rows = "filter (\<lambda>e. userId e = user_id test_user \<and> 1767225600000 \<le> date e
                           \<and> date e \<le> 1770249600000) (expenses test_world)"
  have qu: "getUser quarters_world = Some test_user"
    by (simp add: getUser_def quarters_world_def)
  have qf: "fk_ok quarters_world"
    by (simp add: fk_ok_def quarters_world_def test_categories_def)
  have qx: "exactly_summable 0 (map amount (expenses quarters_world))"
    by code_simp
  have qs: "sum_list (map amount (expenses quarters_world)) = 71"
    by (simp add: quarters_world_def)
  have qrows: "?qrows = expenses quarters_world"
    by (simp add: quarters_world_def test_user_def)
  obtain qexps qsm where qj: "map Some qexps = map (with_category (categories quarters_world)) ?qrows"
    and qr: "getDashboardSummary 1767225600000 1770249600000 quarters_world
               = (Inr qsm, log_call ExpenseFindMany quarters_world)"
    and qe: "exactly_summable 0 (map amount qexps)
               \<longrightarrow> s_total qsm = sum_list (map amount qexps)"
    using getDashboardSummary_binary64_sums [OF qu qf, of 1767225600000 1770249600000]
    by blast
  have qam: "map amount qexps = map amount (expenses quarters_world)"
    using qj [THEN joined_amounts] by (simp only: qrows)
  have qt: "s_total qsm = 71"
    using qe qx qs by (simp only: qam)
  have qv: "fst (getDashboardSummary 1767225600000 1770249600000 quarters_world)
       = Inr \<lparr>s_total = 71, s_count = 4,
               s_byCategory = [\<lparr>g_name = ''Food'', g_total = 58, g_count = 2\<rparr>,
                               \<lparr>g_name = ''Transport'', g_total = 13, g_count = 2\<rparr>]\<rparr>"
    by code_simp
  have u: "getUser test_world = Some test_user"
    by (simp add: getUser_def test_world_def)
  have f: "fk_ok test_world"
    by (simp add: fk_ok_def test_world_def test_expenses_def test_categories_def)
  have rows: "?rows = take 3 test_expenses"
    by (simp add: test_world_def test_expenses_def test_user_def)
  have a: "list_all (\<lambda>e. \<exists>m::nat. amount e = of_nat m) ?rows"
  proof -
    have "(100::rat) = of_nat 100" "(200::rat) = of_nat 200" "(150::rat) = of_nat 150"
      by simp_all
    then show ?thesis
      unfolding rows by (simp add: test_expenses_def)
  qed
  have b: "sum_list (map amount ?rows) < 2 ^ 53"
    unfolding rows by (simp add: test_expenses_def)
  obtain exps sm where j: "map Some exps = map (with_category (categories test_world)) ?rows"
    and s: "getDashboardSummary 1767225600000 1770249600000 test_world
              = (Inr sm, log_call ExpenseFindMany test_world)"
    and w: "list_all (\<lambda>e. \<exists>m::nat. amount e = of_nat m) ?rows
              \<and> sum_list (map amount ?rows) < 2 ^ 53
              \<longrightarrow> s_total sm = sum_list (map amount exps)
                \<and> list_all (\<lambda>g. g_total g
                                   = sum_list (map amount
                                       (filter (\<lambda>x. c_name (category x) = g_name g) exps)))
                     (s_byCategory sm)"
    using getDashboardSummary_binary64_sums [OF u f, of 1767225600000 1770249600000]
    by blast
  have t: "s_total sm = sum_list (map amount exps)"
    using w a b by blast
  have am: "map amount exps = map amount ?rows"
    using j by (rule joined_amounts)
  have t': "s_total sm = 100 + 200 + 150"
    unfolding t am rows by (simp add: test_expenses_def)
  have v: "fst (getDashboardSummary 1767225600000 1770249600000 test_world)
       = Inr \<lparr>s_total = 450, s_count = 3,
               s_byCategory = [\<lparr>g_name = ''Food'', g_total = 300, g_count = 2\<rparr>,
                               \<lparr>g_name = ''Transport'', g_total = 150, g_count = 1\<rparr>]\<rparr>"
    by code_simp
  have g: "map g_total (s_byCategory sm) = [300, 150]"
    using v by (simp add: s)
  have c: "(case fst (getDashboardSummary 1767225600000 1770249600000 test_world) of
        Inl err \<Rightarrow> False
      | Inr sm \<Rightarrow> s_total sm = 100 + 200 + 150 \<and> map g_total (s_byCategory sm) = [300, 150])"
    using t' g by (simp add: s)
  show ?thesis
    using qu qf qx qs qv u f c qt by (simp only: simp_thms)
qed

text \<open>
  The claim as stated fails on 0.10 and 0.20: the total and the Food total are
  0.30000000000000004, while the exact sum 0.30 read as a number once is
  0.29999999999999998..., the binary64 value nearest to 0.3.
\<close>

theorem getDashboardSummary_drift_counterexample:
  "fst (getDashboardSummary 1767225600000 1770249600000 tenths_world)
     = Inr \<lparr>s_total = 5404319552844596 / 18014398509481984, s_count = 2,
             s_byCategory =
               [\<lparr>g_name = ''Food'', g_total = 5404319552844596 / 18014398509481984,
                 g_count = 2\<rparr>]\<rparr>
   \<and> sum_list (map amount (expenses tenths_world)) = 3 / 10
   \<and> toNumber (sum_list (map amount (expenses tenths_world)))
       = 5404319552844595 / 18014398509481984"
  by code_simp

end
